theory Spec2Isabelle
  imports Complex_Main "HOL-Library.Word"
begin

unbundle bit_operations_syntax

section \<open>Data model of the swarming engine (src/core/fileinfo.c)\<close>

text \<open>
  Offsets and sizes are \<open>filesize_t\<close>, an unsigned 64-bit integer; counters kept in the
  trailer and the reference counts are 32 bits wide.  A chunk status is a C enum, stored in
  memory and in the trailer as a 32-bit value, so a status read back from disk can be any
  32-bit value.  Pointers to downloads are modelled as identifiers.
\<close>

type_synonym filesize_t = "64 word"
type_synonym uint32 = "32 word"
type_synonym uint8 = "8 word"
type_synonym dl_chunk_status = "32 word"
type_synonym download_id = nat

text \<open>
  Modelled from the spec: the declaration of \<open>enum dl_chunk_status\<close> lives in fileinfo.h,
  which is not part of the sources at hand; the three labels Empty, Busy and Done of the
  data model are numbered in that order.
\<close>

definition DL_CHUNK_EMPTY :: dl_chunk_status where "DL_CHUNK_EMPTY = 0"
definition DL_CHUNK_BUSY :: dl_chunk_status where "DL_CHUNK_BUSY = 1"
definition DL_CHUNK_DONE :: dl_chunk_status where "DL_CHUNK_DONE = 2"

record dl_file_chunk =
  fc_from :: filesize_t
  fc_to :: filesize_t
  fc_download :: "download_id option"
  fc_status :: dl_chunk_status

datatype fi_error =
    Assertion_failed
  | Fatal_error
  | Division_by_zero
  | Null_dereference
  | Out_of_fuel
  | No_trailer
  | Seek_failed
  | Unexpected_eof
  | Strange_version
  | Zero_size_field
  | Field_too_large
  | Inconsistent_chunklist
  | Checksum_mismatch

text \<open>The configuration properties read through \<open>GNET_PROPERTY\<close>.\<close>

record gnet_props =
  fileinfo_debug :: uint32
  use_aggressive_swarming :: bool
  dl_minchunksize :: uint32
  dl_maxchunksize :: uint32
  dl_pipeline_maxchunksize :: uint32
  enable_http_pipelining :: bool
  pfsp_server :: bool
  pfsp_first_chunk :: uint32
  pfsp_last_chunk :: uint32
  pfsp_minimum_filesize :: uint32

text \<open>
  What the allocator reads from a \<open>struct download\<close>, whose declaration and accessors
  (\<open>download_pipelining\<close>, \<open>download_speed_avg\<close>, \<open>download_ranges\<close>,
  \<open>download_ranges_size\<close>, \<open>DOWNLOAD_IS_RUNNING\<close>) belong to the protocol layer.  A
  range of \<open>d_ranges\<close> is a pair (start, end) with the end included.
\<close>

record download =
  d_file_size :: filesize_t
  d_served_reqs :: uint32
  d_pipelining :: bool
  d_speed_avg :: uint32
  d_ranges :: "(filesize_t \<times> filesize_t) list"
  d_ranges_size :: filesize_t
  d_running :: bool

type_synonym downloads = "download_id \<Rightarrow> download"

text \<open>
  What the allocator takes from its surroundings besides the configuration: the value of
  \<open>fi_alive_count(fi)\<close>, the constant \<open>FI_LOW_SRC_COUNT\<close>, the result of
  \<open>get_random_file_offset\<close>, and whether \<open>stat\<close> reports the output file as missing.
\<close>

record fi_env =
  alive_count :: uint32
  low_src_count :: uint32
  random_offset :: filesize_t
  file_gone :: bool

text \<open>The fields of \<open>fileinfo_t\<close> that the chunk list, the allocator and the codec use.\<close>

record fileinfo =
  fi_pathname :: string
  fi_size :: filesize_t
  fi_file_size_known :: bool
  fi_use_swarming :: bool
  fi_done :: filesize_t
  fi_chunklist :: "dl_file_chunk list"
  fi_refcount :: uint32
  fi_lifecount :: uint32
  fi_generation :: uint32
  fi_created :: uint32
  fi_ntime :: uint32
  fi_guid :: "uint8 list option"
  fi_tth :: "uint8 list option"
  fi_tigertree :: "uint8 list"
  fi_sha1 :: "uint8 list option"
  fi_cha1 :: "uint8 list option"
  fi_alias :: "uint8 list list"

subsection \<open>Consistency check of a chunk list\<close>

text \<open>
  The loop of \<open>file_info_check_chunklist\<close>: \<open>last\<close> is the end of the previous chunk,
  \<open>bounded\<close> tells whether the size test applies (size known and not zero).
\<close>

fun check_chunks :: "bool \<Rightarrow> filesize_t \<Rightarrow> filesize_t \<Rightarrow> dl_file_chunk list \<Rightarrow> bool" where
  "check_chunks bounded sz lst [] = True"
| "check_chunks bounded sz lst (fc # sl) =
     (if lst \<noteq> fc_from fc \<or> fc_from fc \<ge> fc_to fc then False
      else if \<not> bounded then check_chunks bounded sz (fc_to fc) sl
      else if fc_from fc \<ge> sz \<or> fc_to fc > sz then False
      else check_chunks bounded sz (fc_to fc) sl)"

definition file_info_check_chunklist :: "gnet_props \<Rightarrow> fileinfo \<Rightarrow> bool \<Rightarrow> bool" where
  "file_info_check_chunklist P fi assertion =
     (if assertion \<and> fileinfo_debug P = 0 then True
      else check_chunks (fi_file_size_known fi \<and> fi_size fi \<noteq> 0) (fi_size fi) 0 (fi_chunklist fi))"

subsection \<open>Merging adjacent chunks\<close>

text \<open>
  The loop of \<open>file_info_merge_adjacent\<close>.  \<open>fc1\<close> is the previous chunk still in the
  list, the second argument the chunks not yet visited, \<open>dn\<close> the running count of
  completed bytes.  A Done chunk loses its owner and is counted before it is compared
  with its predecessor.
\<close>

definition visit_chunk :: "dl_file_chunk \<Rightarrow> dl_file_chunk" where
  "visit_chunk fc = (if fc_status fc = DL_CHUNK_DONE then fc\<lparr>fc_download := None\<rparr> else fc)"

definition visit_done :: "dl_file_chunk \<Rightarrow> filesize_t \<Rightarrow> filesize_t" where
  "visit_done fc dn = (if fc_status fc = DL_CHUNK_DONE then dn + (fc_to fc - fc_from fc) else dn)"

fun merge_loop :: "dl_file_chunk \<Rightarrow> dl_file_chunk list \<Rightarrow> filesize_t
    \<Rightarrow> fi_error + (dl_file_chunk list \<times> filesize_t)" where
  "merge_loop fc1 [] dn = Inr ([fc1], dn)"
| "merge_loop fc1 (fc # sl) dn =
     (let fc2 = visit_chunk fc; dn2 = visit_done fc dn in
      if fc_to fc1 \<noteq> fc_from fc2 then Inl Assertion_failed
      else if fc_status fc1 = fc_status fc2 \<and> fc_status fc2 \<noteq> DL_CHUNK_BUSY
      then merge_loop (fc1\<lparr>fc_to := fc_to fc2\<rparr>) sl dn2
      else (case merge_loop fc2 sl dn2 of
              Inl e \<Rightarrow> Inl e
            | Inr (l, d) \<Rightarrow> Inr (fc1 # l, d)))"

definition merge_chunks :: "dl_file_chunk list \<Rightarrow> fi_error + (dl_file_chunk list \<times> filesize_t)" where
  "merge_chunks cl = (case cl of [] \<Rightarrow> Inr ([], 0)
                      | fc # sl \<Rightarrow> merge_loop (visit_chunk fc) sl (visit_done fc 0))"

definition file_info_merge_adjacent :: "gnet_props \<Rightarrow> fileinfo \<Rightarrow> fi_error + fileinfo" where
  "file_info_merge_adjacent P fi =
     (if \<not> file_info_check_chunklist P fi True then Inl Assertion_failed
      else case merge_chunks (fi_chunklist fi) of
             Inl e \<Rightarrow> Inl e
           | Inr (l, dn) \<Rightarrow>
               (let fi' = (if l \<noteq> [] then fi\<lparr>fi_chunklist := l, fi_done := dn\<rparr>
                           else fi\<lparr>fi_chunklist := l\<rparr>)
                in if \<not> file_info_check_chunklist P fi' True then Inl Assertion_failed
                   else Inr fi'))"

subsection \<open>Derived quantities of a chunk list\<close>

text \<open>
  The number of bytes lying in Done chunks (in 64-bit arithmetic, as the counter
  \<open>fi->done\<close>), the Busy chunks in list order, and the absence of a pair of neighbours
  that one pass of the merge would fuse.
\<close>

fun done_bytes :: "dl_file_chunk list \<Rightarrow> filesize_t" where
  "done_bytes [] = 0"
| "done_bytes (fc # sl) =
     (if fc_status fc = DL_CHUNK_DONE then (fc_to fc - fc_from fc) + done_bytes sl else done_bytes sl)"

fun no_mergeable :: "dl_file_chunk list \<Rightarrow> bool" where
  "no_mergeable (a # b # l) =
     (\<not> (fc_status a = fc_status b \<and> fc_status b \<noteq> DL_CHUNK_BUSY) \<and> no_mergeable (b # l))"
| "no_mergeable l = True"

definition busy_chunks :: "dl_file_chunk list \<Rightarrow> dl_file_chunk list" where
  "busy_chunks l = filter (\<lambda>fc. fc_status fc = DL_CHUNK_BUSY) l"

text \<open>A list on which the merge loop has nothing left to do.\<close>

fun merged_from :: "dl_file_chunk \<Rightarrow> dl_file_chunk list \<Rightarrow> bool" where
  "merged_from fc1 [] = True"
| "merged_from fc1 (fc # sl) =
     (fc_to fc1 = fc_from fc \<and> visit_chunk fc = fc \<and>
      \<not> (fc_status fc1 = fc_status fc \<and> fc_status fc \<noteq> DL_CHUNK_BUSY) \<and> merged_from fc sl)"


subsection \<open>Sample states\<close>

definition props_example :: gnet_props where
  "props_example = \<lparr>fileinfo_debug = 1, use_aggressive_swarming = True,
     dl_minchunksize = 512, dl_maxchunksize = 4096, dl_pipeline_maxchunksize = 2048,
     enable_http_pipelining = False, pfsp_server = False, pfsp_first_chunk = 0,
     pfsp_last_chunk = 0, pfsp_minimum_filesize = 0\<rparr>"

definition mk_chunk :: "filesize_t \<Rightarrow> filesize_t \<Rightarrow> download_id option \<Rightarrow> dl_chunk_status
    \<Rightarrow> dl_file_chunk" where
  "mk_chunk a b d s = \<lparr>fc_from = a, fc_to = b, fc_download = d, fc_status = s\<rparr>"

definition fi_example :: "filesize_t \<Rightarrow> filesize_t \<Rightarrow> dl_file_chunk list \<Rightarrow> fileinfo" where
  "fi_example sz dn cl = \<lparr>fi_pathname = ''/incomplete/sample'', fi_size = sz,
     fi_file_size_known = True, fi_use_swarming = True, fi_done = dn, fi_chunklist = cl,
     fi_refcount = 2, fi_lifecount = 2, fi_generation = 0,
     fi_created = 1, fi_ntime = 1, fi_guid = None, fi_tth = None, fi_tigertree = [],
     fi_sha1 = None, fi_cha1 = None, fi_alias = []\<rparr>"

subsection \<open>Marking a range: \<open>file_info_update\<close>\<close>

text \<open>
  How the scan over the chunk list ends: \<open>found = TRUE\<close> followed by \<open>break\<close>, the
  end of the loop without a match, or \<open>goto again\<close>.
\<close>

datatype loop_exit = Found | Not_found | Again

datatype scan_step =
    Continue "dl_file_chunk list" filesize_t bool filesize_t
  | Break "dl_file_chunk list" filesize_t bool filesize_t loop_exit
  | Abort fi_error

text \<open>\<open>prevfc && prevfc->status == status\<close>; the chunks before the current one are kept in
  reverse order, so \<open>prevfc\<close> is the head of \<open>pre\<close>.\<close>

definition prev_has_status :: "dl_file_chunk list \<Rightarrow> dl_chunk_status \<Rightarrow> bool" where
  "prev_has_status pre status = (case pre of [] \<Rightarrow> False | prevfc # _ \<Rightarrow> fc_status prevfc = status)"

text \<open>
  The body of the \<open>for\<close> loop of \<open>file_info_update\<close> at chunk \<open>fc\<close>, with the chunks
  \<open>pre\<close> before it (reversed) and \<open>sl\<close> after it.  \<open>frm\<close> and \<open>til\<close> are the bounds of
  the range still to mark, \<open>nm\<close> is \<open>need_merging\<close>, \<open>dn\<close> is \<open>fi->done\<close>, and \<open>chk\<close>
  stands for the assertion \<open>file_info_check_chunklist(fi, TRUE)\<close> on the list built so far.
\<close>

definition update_body :: "(dl_file_chunk list \<Rightarrow> bool) \<Rightarrow> dl_chunk_status \<Rightarrow> download_id option
    \<Rightarrow> filesize_t \<Rightarrow> dl_file_chunk list \<Rightarrow> dl_file_chunk \<Rightarrow> dl_file_chunk list
    \<Rightarrow> filesize_t \<Rightarrow> bool \<Rightarrow> filesize_t \<Rightarrow> scan_step" where
  "update_body chk status newval til pre fc sl frm nm dn =
    (if fc_to fc \<le> frm then Continue (fc # pre) frm nm dn
     else if fc_from fc \<ge> til then Break (rev pre @ fc # sl) frm nm dn Not_found
     else if fc_from fc = frm \<and> fc_to fc = til then
       (let nm' = (if prev_has_status pre status then True
                   else if fc_status fc = DL_CHUNK_DONE then True else nm);
            dn' = (if status = DL_CHUNK_DONE then dn + (til - frm) else dn);
            l = rev pre @ fc\<lparr>fc_download := newval, fc_status := status\<rparr> # sl
        in if chk l then Break l frm nm' dn' Found else Abort Assertion_failed)
     else if fc_from fc = frm \<and> fc_to fc < til then
       (let nm' = (if prev_has_status pre status then True
                   else if fc_status fc = DL_CHUNK_DONE then True else nm);
            dn' = (if status = DL_CHUNK_DONE then dn + (fc_to fc - frm) else dn);
            fc' = fc\<lparr>fc_download := newval, fc_status := status\<rparr>
        in if chk (rev pre @ fc' # sl) then Continue (fc' # pre) (fc_to fc) nm' dn'
           else Abort Assertion_failed)
     else if fc_from fc = frm \<and> fc_to fc > til then
       (let nm' = (if fc_status fc = DL_CHUNK_DONE then True else nm);
            dn' = (if status = DL_CHUNK_DONE then dn + (til - frm) else dn)
        in if status = DL_CHUNK_DONE \<and> prev_has_status pre status then
             (case pre of
                [] \<Rightarrow> Abort Assertion_failed
              | prevfc # pre' \<Rightarrow>
                  if fc_to prevfc \<noteq> fc_from fc then Abort Assertion_failed
                  else (let l = rev pre' @ prevfc\<lparr>fc_to := til\<rparr> # fc\<lparr>fc_from := til\<rparr> # sl
                        in if chk l then Break l frm nm' dn' Found else Abort Assertion_failed))
           else
             (let nfc = \<lparr>fc_from = til, fc_to = fc_to fc, fc_download = fc_download fc,
                         fc_status = fc_status fc\<rparr>;
                  fc' = fc\<lparr>fc_to := til, fc_download := newval, fc_status := status\<rparr>;
                  l = rev pre @ fc' # nfc # sl
              in if chk l then Break l frm nm' dn' Found else Abort Assertion_failed))
     else if fc_from fc < frm \<and> fc_to fc \<ge> til then
       (let nm' = (if fc_status fc = DL_CHUNK_DONE then True else nm);
            dn' = (if status = DL_CHUNK_DONE then dn + (til - frm) else dn);
            upper = (if fc_to fc > til then
                       [if fc_status fc = DL_CHUNK_BUSY
                        then \<lparr>fc_from = til, fc_to = fc_to fc, fc_download = None,
                               fc_status = DL_CHUNK_EMPTY\<rparr>
                        else \<lparr>fc_from = til, fc_to = fc_to fc, fc_download = fc_download fc,
                               fc_status = fc_status fc\<rparr>]
                     else []);
            nfc = \<lparr>fc_from = frm, fc_to = til, fc_download = newval, fc_status = status\<rparr>;
            l = rev pre @ fc\<lparr>fc_to := frm\<rparr> # nfc # upper @ sl
        in if chk l then Break l frm nm' dn' Found else Abort Assertion_failed)
     else if fc_from fc < frm \<and> fc_to fc < til then
       (let nm' = (if fc_status fc = DL_CHUNK_DONE then True else nm);
            dn' = (if status = DL_CHUNK_DONE then dn + (fc_to fc - frm) else dn);
            nfc = \<lparr>fc_from = frm, fc_to = fc_to fc, fc_download = newval, fc_status = status\<rparr>;
            l = rev pre @ fc\<lparr>fc_to := frm\<rparr> # nfc # sl
        in if chk l then Break l (fc_to fc) nm' dn' Again else Abort Assertion_failed)
     else Continue (fc # pre) frm nm dn)"

fun update_scan :: "(dl_file_chunk list \<Rightarrow> bool) \<Rightarrow> dl_chunk_status \<Rightarrow> download_id option
    \<Rightarrow> filesize_t \<Rightarrow> dl_file_chunk list \<Rightarrow> dl_file_chunk list
    \<Rightarrow> filesize_t \<Rightarrow> bool \<Rightarrow> filesize_t
    \<Rightarrow> fi_error + (dl_file_chunk list \<times> filesize_t \<times> bool \<times> filesize_t \<times> loop_exit)" where
  "update_scan chk status newval til pre [] frm nm dn = Inr (rev pre, frm, nm, dn, Not_found)"
| "update_scan chk status newval til pre (fc # sl) frm nm dn =
     (case update_body chk status newval til pre fc sl frm nm dn of
        Continue pre' frm' nm' dn' \<Rightarrow> update_scan chk status newval til pre' sl frm' nm' dn'
      | Break l frm' nm' dn' ex \<Rightarrow> Inr (l, frm', nm', dn', ex)
      | Abort e \<Rightarrow> Inl e)"

text \<open>
  The label \<open>again\<close>: the first argument counts the passes still allowed before
  \<open>++againcount > 10\<close> makes \<open>g_error\<close> abort the program.
\<close>

fun update_again :: "nat \<Rightarrow> (dl_file_chunk list \<Rightarrow> bool) \<Rightarrow> dl_chunk_status \<Rightarrow> download_id option
    \<Rightarrow> filesize_t \<Rightarrow> dl_file_chunk list \<Rightarrow> filesize_t \<Rightarrow> bool \<Rightarrow> filesize_t
    \<Rightarrow> fi_error + (dl_file_chunk list \<times> bool \<times> filesize_t \<times> loop_exit)" where
  "update_again 0 chk status newval til cl frm nm dn = Inl Fatal_error"
| "update_again (Suc k) chk status newval til cl frm nm dn =
     (case update_scan chk status newval til [] cl frm nm dn of
        Inl e \<Rightarrow> Inl e
      | Inr (l, frm', nm', dn', ex) \<Rightarrow>
          if ex = Again then update_again k chk status newval til l frm' nm' dn'
          else Inr (l, nm', dn', ex))"

text \<open>
  \<open>file_info_update(d, from, to, status)\<close> on the record \<open>d->file_info\<close>.  Every
  \<open>g_assert\<close> is a branch to \<open>Assertion_failed\<close>.  The time stamps, the flush of the
  trailer to disk at the end and the notification of listeners do not touch the chunk
  list or the counter and are left out.
\<close>

definition file_info_update :: "gnet_props \<Rightarrow> download_id \<Rightarrow> filesize_t \<Rightarrow> filesize_t
    \<Rightarrow> dl_chunk_status \<Rightarrow> fileinfo \<Rightarrow> fi_error + fileinfo" where
  "file_info_update P d frm til status fi =
    (if \<not> (0 <s fi_refcount fi) then Inl Assertion_failed
     else if \<not> frm < til then Inl Assertion_failed
     else if status \<noteq> DL_CHUNK_DONE \<and> status \<noteq> DL_CHUNK_BUSY \<and> status \<noteq> DL_CHUNK_EMPTY
       then Inl Assertion_failed
     else if status = DL_CHUNK_BUSY \<and> \<not> (0 <s fi_lifecount fi) then Inl Assertion_failed
     else
       (let need_merging = (status \<noteq> DL_CHUNK_DONE);
            newval = (if status = DL_CHUNK_EMPTY then None else Some d)
        in if \<not> fi_file_size_known fi then
             (if fi_chunklist fi \<noteq> [] \<or> fi_use_swarming fi then Inl Assertion_failed
              else if status = DL_CHUNK_DONE then
                (if frm \<noteq> fi_done fi then Inl Assertion_failed
                 else Inr (fi\<lparr>fi_done := fi_done fi + (til - frm)\<rparr>))
              else Inr fi)
           else if \<not> file_info_check_chunklist P fi True then Inl Assertion_failed
           else
             (case update_again 10 (\<lambda>l. file_info_check_chunklist P (fi\<lparr>fi_chunklist := l\<rparr>) True)
                     status newval til (fi_chunklist fi) frm need_merging (fi_done fi) of
                Inl e \<Rightarrow> Inl e
              | Inr (l, nm, dn, ex) \<Rightarrow>
                  (case (if nm then file_info_merge_adjacent P (fi\<lparr>fi_chunklist := l, fi_done := dn\<rparr>)
                         else Inr (fi\<lparr>fi_chunklist := l, fi_done := dn\<rparr>)) of
                     Inl e \<Rightarrow> Inl e
                   | Inr fi2 \<Rightarrow>
                       if \<not> file_info_check_chunklist P fi2 True then Inl Assertion_failed
                       else Inr fi2))))"

subsection \<open>The coverage invariant, in the words of the specification\<close>

text \<open>
  Chunks in start order, each with \<open>from < to\<close>, each starting where the previous one
  ends (the first at \<open>lst\<close>), none reaching past the size \<open>sz\<close>.
\<close>

fun partition_from :: "filesize_t \<Rightarrow> filesize_t \<Rightarrow> dl_file_chunk list \<Rightarrow> bool" where
  "partition_from sz lst [] = True"
| "partition_from sz lst (fc # sl) =
     (fc_from fc = lst \<and> fc_from fc < fc_to fc \<and> fc_to fc \<le> sz \<and> partition_from sz (fc_to fc) sl)"

definition list_end :: "filesize_t \<Rightarrow> dl_file_chunk list \<Rightarrow> filesize_t" where
  "list_end a l = (if l = [] then a else fc_to (last l))"

definition chunklist_partition :: "fileinfo \<Rightarrow> bool" where
  "chunklist_partition fi = partition_from (fi_size fi) 0 (fi_chunklist fi)"


text \<open>
  The relation kept between the cached counter and the list while a range is being
  marked: either a merge pass is already due on a non-empty list, or the counter is exact.
\<close>

definition done_inv :: "dl_file_chunk list \<Rightarrow> bool \<Rightarrow> filesize_t \<Rightarrow> bool" where
  "done_inv l nm dn = ((nm \<and> l \<noteq> []) \<or> dn = done_bytes l)"



subsection \<open>Releasing the chunks of a download, resetting a file\<close>

text \<open>
  The loop of \<open>file_info_clear_download\<close>; \<open>busy\<close> and \<open>pipelined\<close> only feed the
  closing assertion.  A Busy chunk without owner fails \<open>g_assert(fc->download != NULL)\<close>.
\<close>

fun clear_loop :: "downloads \<Rightarrow> download_id \<Rightarrow> dl_file_chunk list \<Rightarrow> int \<Rightarrow> int
    \<Rightarrow> fi_error + (dl_file_chunk list \<times> int \<times> int)" where
  "clear_loop D d [] busy pipelined = Inr ([], busy, pipelined)"
| "clear_loop D d (fc # sl) busy pipelined =
     (if fc_status fc = DL_CHUNK_BUSY \<and> fc_download fc = None then Inl Assertion_failed
      else
        (let busy' = (if fc_status fc = DL_CHUNK_BUSY then busy + 1 else busy);
             pipelined' = (case fc_download fc of
                             None \<Rightarrow> pipelined
                           | Some ow \<Rightarrow> if fc_status fc = DL_CHUNK_BUSY \<and> d_pipelining (D ow)
                                        then pipelined + 1 else pipelined);
             fc' = (if fc_download fc = Some d
                    then (if fc_status fc = DL_CHUNK_BUSY
                          then fc\<lparr>fc_download := None, fc_status := DL_CHUNK_EMPTY\<rparr>
                          else fc\<lparr>fc_download := None\<rparr>)
                    else fc)
         in case clear_loop D d sl busy' pipelined' of
              Inl e \<Rightarrow> Inl e
            | Inr (l, b, p) \<Rightarrow> Inr (fc' # l, b, p)))"

definition file_info_clear_download :: "gnet_props \<Rightarrow> downloads \<Rightarrow> download_id \<Rightarrow> bool
    \<Rightarrow> fileinfo \<Rightarrow> fi_error + fileinfo" where
  "file_info_clear_download P D d lifecount fi =
     (if \<not> file_info_check_chunklist P fi True then Inl Assertion_failed
      else case clear_loop D d (fi_chunklist fi) 0 0 of
             Inl e \<Rightarrow> Inl e
           | Inr (l, busy, pipelined) \<Rightarrow>
               (case file_info_merge_adjacent P (fi\<lparr>fi_chunklist := l\<rparr>) of
                  Inl e \<Rightarrow> Inl e
                | Inr fi' \<Rightarrow>
                    if sint (fi_lifecount fi') \<ge>
                         (if lifecount then busy - pipelined else busy - pipelined - 1)
                    then Inr fi' else Inl Assertion_failed))"

text \<open>The first chunk of the list whose owner is a running download, if any.\<close>

fun running_owner :: "downloads \<Rightarrow> dl_file_chunk list \<Rightarrow> download_id option" where
  "running_owner D [] = None"
| "running_owner D (fc # sl) =
     (case fc_download fc of
        None \<Rightarrow> running_owner D sl
      | Some d \<Rightarrow> if d_running (D d) then Some d else running_owner D sl)"

text \<open>
  Modelled from the spec: \<open>download_queue\<close> belongs to the protocol layer.  Requeueing a
  running source detaches it: every chunk it owns is released through
  \<open>file_info_clear_download\<close> (which is what the comment at the \<open>goto restart\<close> relies
  on) and the source is no longer running.
\<close>

definition download_queue :: "gnet_props \<Rightarrow> downloads \<Rightarrow> download_id \<Rightarrow> fileinfo
    \<Rightarrow> fi_error + (downloads \<times> fileinfo)" where
  "download_queue P D d fi =
     (case file_info_clear_download P D d True fi of
        Inl e \<Rightarrow> Inl e
      | Inr fi' \<Rightarrow> Inr (D(d := (D d)\<lparr>d_running := False\<rparr>), fi'))"

text \<open>
  The \<open>restart\<close> loop of \<open>file_info_reset\<close>.  Each round requeues one running owner;
  the first argument bounds the number of rounds.
\<close>

fun reset_restart :: "nat \<Rightarrow> gnet_props \<Rightarrow> downloads \<Rightarrow> fileinfo
    \<Rightarrow> fi_error + (downloads \<times> fileinfo)" where
  "reset_restart 0 P D fi = Inl Out_of_fuel"
| "reset_restart (Suc n) P D fi =
     (case running_owner D (fi_chunklist fi) of
        None \<Rightarrow> Inr (D, fi)
      | Some d \<Rightarrow>
          (case download_queue P D d fi of
             Inl e \<Rightarrow> Inl e
           | Inr (D', fi') \<Rightarrow> reset_restart n P D' fi'))"

text \<open>The second loop: \<open>g_assert(NULL == fc->download)\<close>, then the chunk becomes Empty.\<close>

fun reset_chunks :: "dl_file_chunk list \<Rightarrow> fi_error + dl_file_chunk list" where
  "reset_chunks [] = Inr []"
| "reset_chunks (fc # sl) =
     (if fc_download fc \<noteq> None then Inl Assertion_failed
      else case reset_chunks sl of
             Inl e \<Rightarrow> Inl e
           | Inr l \<Rightarrow> Inr (fc\<lparr>fc_status := DL_CHUNK_EMPTY\<rparr> # l))"

definition file_info_reset :: "gnet_props \<Rightarrow> downloads \<Rightarrow> fileinfo
    \<Rightarrow> fi_error + (downloads \<times> fileinfo)" where
  "file_info_reset P D fi =
     (if \<not> file_info_check_chunklist P fi True then Inl Assertion_failed
      else case reset_restart (Suc (length (fi_chunklist fi))) P D (fi\<lparr>fi_cha1 := None\<rparr>) of
             Inl e \<Rightarrow> Inl e
           | Inr (D', fi1) \<Rightarrow>
               (case reset_chunks (fi_chunklist fi1) of
                  Inl e \<Rightarrow> Inl e
                | Inr l \<Rightarrow>
                    (case file_info_merge_adjacent P (fi1\<lparr>fi_chunklist := l\<rparr>) of
                       Inl e \<Rightarrow> Inl e
                     | Inr fi2 \<Rightarrow> Inr (D', fi2))))"

subsection \<open>The allocator: \<open>file_info_find_hole\<close>\<close>

text \<open>
  All downloads of the environment target the one record at hand, so the assertion
  \<open>chunk->download->file_info == d->file_info\<close> of \<open>file_info_reserve\<close> holds by
  construction.
\<close>

definition FI_MIN_CHUNK_SPLIT :: filesize_t where "FI_MIN_CHUNK_SPLIT = 512"

definition owned_busy :: "download_id \<Rightarrow> dl_file_chunk \<Rightarrow> bool" where
  "owned_busy d fc = (fc_download fc = Some d \<and> fc_status fc = DL_CHUNK_BUSY)"

definition fi_busy_count :: "gnet_props \<Rightarrow> downloads \<Rightarrow> fileinfo \<Rightarrow> download_id \<Rightarrow> fi_error + int" where
  "fi_busy_count P D fi d =
     (if \<not> file_info_check_chunklist P fi True then Inl Assertion_failed
      else
        (let count = int (length (filter (owned_busy d) (fi_chunklist fi)));
             pipelined = (if d_pipelining (D d) then count else 0)
         in if sint (fi_lifecount fi) \<ge> count - pipelined then Inr count
            else Inl Assertion_failed))"

text \<open>\<open>fi_check_file\<close>, called with \<open>fi->done\<close> not zero: a vanished file resets the record.\<close>

definition fi_check_file :: "gnet_props \<Rightarrow> fi_env \<Rightarrow> downloads \<Rightarrow> fileinfo
    \<Rightarrow> fi_error + (downloads \<times> fileinfo)" where
  "fi_check_file P E D fi =
     (if fi_done fi = 0 then Inl Assertion_failed
      else if file_gone E then file_info_reset P D fi
      else Inr (D, fi))"

definition fi_chunksize :: "gnet_props \<Rightarrow> fi_env \<Rightarrow> fileinfo \<Rightarrow> filesize_t" where
  "fi_chunksize P E fi =
     (let src_count = (if alive_count E <s 1 then 1 else alive_count E);
          chunksize = (fi_size fi - fi_done fi) div ucast src_count;
          chunksize = (if chunksize < ucast (dl_minchunksize P) then ucast (dl_minchunksize P)
                       else chunksize);
          mx = (if enable_http_pipelining P then dl_pipeline_maxchunksize P
                else dl_maxchunksize P)
      in (if chunksize < ucast mx then chunksize else ucast mx))"

text \<open>The chunk size of \<open>file_info_find_hole\<close>, with the adjustment for a first request.\<close>

definition find_hole_chunksize :: "gnet_props \<Rightarrow> fi_env \<Rightarrow> downloads \<Rightarrow> download_id
    \<Rightarrow> fileinfo \<Rightarrow> filesize_t" where
  "find_hole_chunksize P E D d fi =
     (let chunksize = fi_chunksize P E fi in
      if pfsp_server P \<and> d_served_reqs (D d) = 0 \<and> alive_count E \<le>s low_src_count E then
        (if fi_done fi \<ge> ucast (pfsp_minimum_filesize P) then ucast (dl_minchunksize P)
         else
           (let missing = ucast (pfsp_minimum_filesize P) - fi_done fi;
                chunksize = (if chunksize > missing then chunksize else missing)
            in (if chunksize < ucast (dl_maxchunksize P) then chunksize
                else ucast (dl_maxchunksize P))))
      else chunksize)"

subsubsection \<open>Rotating the scan order: \<open>list_clone_shift\<close>\<close>

text \<open>The search for the first gap within the last \<open>pfsp_last_chunk\<close> bytes.\<close>

fun last_gap_offset :: "filesize_t \<Rightarrow> dl_file_chunk list \<Rightarrow> filesize_t" where
  "last_gap_offset lco [] = 0"
| "last_gap_offset lco (fc # sl) =
     (if fc_status fc = DL_CHUNK_DONE then last_gap_offset lco sl
      else if fc_from fc < lco \<and> fc_to fc \<le> lco then last_gap_offset lco sl
      else if fc_from fc < lco then lco else fc_from fc)"

text \<open>First pass: the suffix starting at the first chunk at or after the offset.\<close>

fun clone_first_pass :: "filesize_t \<Rightarrow> dl_file_chunk list \<Rightarrow> dl_file_chunk list option" where
  "clone_first_pass off [] = None"
| "clone_first_pass off (fc # sl) =
     (if fc_from fc \<ge> off then Some (fc # sl)
      else if fc_status fc = DL_CHUNK_EMPTY \<and> fc_to fc - 1 > off then None
      else clone_first_pass off sl)"

text \<open>
  Splitting the Empty chunk in which the offset falls; the result is the new chunk list
  of the record and the cloned suffix, if a chunk was split.
\<close>

fun clone_split_pass :: "filesize_t \<Rightarrow> dl_file_chunk list
    \<Rightarrow> fi_error + (dl_file_chunk list \<times> dl_file_chunk list option)" where
  "clone_split_pass off [] = Inr ([], None)"
| "clone_split_pass off (fc # sl) =
     (if fc_status fc = DL_CHUNK_EMPTY \<and> fc_to fc - 1 > off then
        (if \<not> fc_from fc < off then Inl Assertion_failed
         else if fc_download fc \<noteq> None then Inl Assertion_failed
         else
           (let nfc = \<lparr>fc_from = off, fc_to = fc_to fc, fc_download = None,
                       fc_status = DL_CHUNK_EMPTY\<rparr>
            in Inr (fc\<lparr>fc_to := off\<rparr> # nfc # sl, Some (nfc # sl))))
      else
        (case clone_split_pass off sl of
           Inl e \<Rightarrow> Inl e
         | Inr (l, c) \<Rightarrow> Inr (fc # l, c)))"

text \<open>Second pass: the chunks that end at or before the cloning point.\<close>

fun clone_second_pass :: "filesize_t \<Rightarrow> dl_file_chunk list \<Rightarrow> fi_error + dl_file_chunk list" where
  "clone_second_pass off [] = Inr []"
| "clone_second_pass off (fc # sl) =
     (if fc_to fc > off then Inr []
      else if \<not> fc_from fc < off then Inl Assertion_failed
      else
        (case clone_second_pass off sl of
           Inl e \<Rightarrow> Inl e
         | Inr l \<Rightarrow> Inr (fc # l)))"

text \<open>The offset at which the list is cut: the first gap near the tail, or a random one.\<close>

definition clone_offset :: "gnet_props \<Rightarrow> fi_env \<Rightarrow> fileinfo \<Rightarrow> filesize_t" where
  "clone_offset P E fi =
     (let offset = (if pfsp_last_chunk P > 0
                    then last_gap_offset
                           (if fi_size fi > ucast (pfsp_last_chunk P)
                            then fi_size fi - ucast (pfsp_last_chunk P) else 0)
                           (fi_chunklist fi)
                    else 0)
      in if offset = 0 then random_offset E AND NOT (128 * 1024 - 1) else offset)"

text \<open>The first pass and, when it clones nothing, the split of an Empty chunk.\<close>

definition clone_cut :: "gnet_props \<Rightarrow> filesize_t \<Rightarrow> fileinfo
    \<Rightarrow> fi_error + (fileinfo \<times> dl_file_chunk list option)" where
  "clone_cut P offset fi =
     (case clone_first_pass offset (fi_chunklist fi) of
        Some c \<Rightarrow> Inr (fi, Some c)
      | None \<Rightarrow>
          (case clone_split_pass offset (fi_chunklist fi) of
             Inl e \<Rightarrow> Inl e
           | Inr (l, c) \<Rightarrow>
               if \<not> file_info_check_chunklist P (fi\<lparr>fi_chunklist := l\<rparr>) True
               then Inl Assertion_failed
               else Inr (fi\<lparr>fi_chunklist := l\<rparr>, c)))"

definition list_clone_shift :: "gnet_props \<Rightarrow> fi_env \<Rightarrow> fileinfo
    \<Rightarrow> fi_error + (dl_file_chunk list \<times> fileinfo)" where
  "list_clone_shift P E fi =
     (if \<not> file_info_check_chunklist P fi True then Inl Assertion_failed
      else if pfsp_first_chunk P > 0 \<and> fi_chunklist fi = [] then Inl Null_dereference
      else if pfsp_first_chunk P > 0 \<and>
              (fc_status (hd (fi_chunklist fi)) \<noteq> DL_CHUNK_DONE \<or>
               fc_to (hd (fi_chunklist fi)) < ucast (pfsp_first_chunk P))
        then Inr (fi_chunklist fi, fi)
      else
        (case clone_cut P (clone_offset P E fi) fi of
           Inl e \<Rightarrow> Inl e
         | Inr (fi', None) \<Rightarrow> Inr (fi_chunklist fi', fi')
         | Inr (fi', Some []) \<Rightarrow> Inl Assertion_failed
         | Inr (fi', Some (c # cs)) \<Rightarrow>
             (case clone_second_pass (fc_from c) (fi_chunklist fi') of
                Inl e \<Rightarrow> Inl e
              | Inr tail \<Rightarrow> Inr ((c # cs) @ tail, fi'))))"

subsubsection \<open>Looking for an Empty chunk\<close>

text \<open>
  The scan of \<open>file_info_find_hole\<close> over the (possibly rotated) list: the first Empty
  chunk, and the count of Busy chunks of other, pipelining downloads seen before it.
\<close>

fun hole_scan :: "downloads \<Rightarrow> download_id \<Rightarrow> dl_file_chunk list \<Rightarrow> uint32
    \<Rightarrow> fi_error + (dl_file_chunk option \<times> uint32)" where
  "hole_scan D d [] pipelined = Inr (None, pipelined)"
| "hole_scan D d (fc # sl) pipelined =
     (if fc_status fc \<noteq> DL_CHUNK_EMPTY then
        (if fc_status fc = DL_CHUNK_BUSY then
           (case fc_download fc of
              None \<Rightarrow> Inl Assertion_failed
            | Some ow \<Rightarrow> hole_scan D d sl
                          (if ow \<noteq> d \<and> d_pipelining (D ow) then pipelined + 1 else pipelined))
         else hole_scan D d sl pipelined)
      else Inr (Some fc, pipelined))"

subsubsection \<open>Aggressive swarming\<close>

text \<open>
  \<open>fi_missing_coverage\<close> returns a \<open>double\<close>; the quotient is taken here in the real
  numbers.  The inner loop adds to \<open>covered_size\<close> the part of the Empty chunk \<open>fc\<close>
  that the ranges of the source cover.
\<close>

fun cover_ranges :: "dl_file_chunk \<Rightarrow> (filesize_t \<times> filesize_t) list \<Rightarrow> filesize_t \<Rightarrow> filesize_t" where
  "cover_ranges fc [] cov = cov"
| "cover_ranges fc ((rs, re) # rl) cov =
     (if rs > fc_to fc then cov
      else if rs \<ge> fc_from fc \<and> rs < fc_to fc then
        cover_ranges fc rl (cov + ((if re + 1 < fc_to fc then re + 1 else fc_to fc) - rs))
      else if re \<ge> fc_from fc \<and> re < fc_to fc then
        cover_ranges fc rl (cov + ((re + 1) - (if rs > fc_from fc then rs else fc_from fc)))
      else cover_ranges fc rl cov)"

fun coverage_loop :: "(filesize_t \<times> filesize_t) list \<Rightarrow> dl_file_chunk list
    \<Rightarrow> filesize_t \<Rightarrow> filesize_t \<Rightarrow> filesize_t \<times> filesize_t" where
  "coverage_loop rl [] missing covered = (missing, covered)"
| "coverage_loop rl (fc # sl) missing covered =
     (if fc_status fc \<noteq> DL_CHUNK_EMPTY then coverage_loop rl sl missing covered
      else coverage_loop rl sl (missing + (fc_to fc - fc_from fc)) (cover_ranges fc rl covered))"

definition fi_missing_coverage :: "gnet_props \<Rightarrow> downloads \<Rightarrow> fileinfo \<Rightarrow> download_id
    \<Rightarrow> fi_error + real" where
  "fi_missing_coverage P D fi d =
     (if \<not> file_info_check_chunklist P fi True \<or> \<not> (0 <s fi_lifecount fi) then Inl Assertion_failed
      else if d_ranges (D d) = [] then
        Inr (if d_ranges_size (D d) \<noteq> 0
             then real (unat (d_ranges_size (D d))) / real (unat (fi_size fi)) else 1)
      else
        (case coverage_loop (d_ranges (D d)) (fi_chunklist fi) 0 0 of
           (missing, covered) \<Rightarrow>
             if \<not> covered \<le> missing then Inl Assertion_failed
             else if missing = 0 then Inr 1
             else Inr (real (unat covered) / real (unat missing))))"

text \<open>\<open>fi_find_largest\<close>: the first largest Busy chunk not owned by \<open>d\<close>.\<close>

fun find_largest_loop :: "download_id \<Rightarrow> dl_file_chunk list \<Rightarrow> dl_file_chunk option
    \<Rightarrow> dl_file_chunk option" where
  "find_largest_loop d [] largest = largest"
| "find_largest_loop d (fc # sl) largest =
     (if fc_status fc \<noteq> DL_CHUNK_BUSY then find_largest_loop d sl largest
      else if fc_download fc = Some d then find_largest_loop d sl largest
      else (case largest of
              None \<Rightarrow> find_largest_loop d sl (Some fc)
            | Some lg \<Rightarrow>
                if fc_to fc - fc_from fc > fc_to lg - fc_from lg
                then find_largest_loop d sl (Some fc)
                else find_largest_loop d sl largest))"

definition fi_find_largest :: "fileinfo \<Rightarrow> download_id \<Rightarrow> dl_file_chunk option" where
  "fi_find_largest fi d = find_largest_loop d (fi_chunklist fi) None"

text \<open>
  \<open>fi_find_slowest\<close>: the Busy chunk, not owned by \<open>d\<close>, whose owner has the lowest
  average speed, the largest such chunk on a tie.  Asking the speed of a missing owner
  dereferences a null pointer.
\<close>

fun find_slowest_loop :: "downloads \<Rightarrow> download_id \<Rightarrow> dl_file_chunk list
    \<Rightarrow> dl_file_chunk option \<Rightarrow> uint32 \<Rightarrow> fi_error + dl_file_chunk option" where
  "find_slowest_loop D d [] slowest speed = Inr slowest"
| "find_slowest_loop D d (fc # sl) slowest speed =
     (if fc_status fc \<noteq> DL_CHUNK_BUSY then find_slowest_loop D d sl slowest speed
      else if fc_download fc = Some d then find_slowest_loop D d sl slowest speed
      else (case fc_download fc of
              None \<Rightarrow> Inl Null_dereference
            | Some ow \<Rightarrow>
                (let speed_avg = d_speed_avg (D ow) in
                 if (case slowest of
                       None \<Rightarrow> True
                     | Some sw \<Rightarrow> speed_avg < speed \<or>
                         (speed_avg = speed \<and> fc_to fc - fc_from fc > fc_to sw - fc_from sw))
                 then find_slowest_loop D d sl (Some fc) speed_avg
                 else find_slowest_loop D d sl slowest speed)))"

definition fi_find_slowest :: "downloads \<Rightarrow> fileinfo \<Rightarrow> download_id
    \<Rightarrow> fi_error + dl_file_chunk option" where
  "fi_find_slowest D fi d = find_slowest_loop D d (fi_chunklist fi) None (- 1)"

text \<open>The range stolen from the chosen chunk: its upper half, or all of a small chunk.\<close>

definition aggressive_range :: "dl_file_chunk \<Rightarrow> filesize_t \<times> filesize_t" where
  "aggressive_range fc =
     (if fc_to fc - fc_from fc \<ge> 2 * FI_MIN_CHUNK_SPLIT
      then ((fc_from fc + fc_to fc - 1) div 2, fc_to fc)
      else (fc_from fc, fc_to fc))"

text \<open>
  The end of \<open>fi_find_aggressive_candidate\<close>, once the chunk \<open>fc\<close> is chosen (or none) and
  \<open>can_be_aggressive\<close> is known.
\<close>

definition aggressive_result :: "download_id \<Rightarrow> bool \<Rightarrow> dl_file_chunk option
    \<Rightarrow> fi_error + (filesize_t \<times> filesize_t \<times> dl_file_chunk) option" where
  "aggressive_result d can fco =
     (if \<not> can then Inr None
      else (case fco of
              None \<Rightarrow> Inl Null_dereference
            | Some fc \<Rightarrow>
                if fc_download fc = None \<or> fc_download fc = Some d then Inl Assertion_failed
                else Inr (Some (fst (aggressive_range fc), snd (aggressive_range fc), fc))))"

definition fi_find_aggressive_candidate :: "gnet_props \<Rightarrow> downloads \<Rightarrow> download_id \<Rightarrow> uint32
    \<Rightarrow> fileinfo \<Rightarrow> fi_error + (filesize_t \<times> filesize_t \<times> dl_file_chunk) option" where
  "fi_find_aggressive_candidate P D d busy fi =
     (let starving = fi_lifecount fi - busy;
          divisor = (scast (2 * starving) :: filesize_t)
      in if divisor = 0 then Inl Division_by_zero
         else
          (let minchunk = (fi_size fi - fi_done fi) div divisor;
               minchunk = (if minchunk < ucast (dl_minchunksize P) then minchunk
                           else ucast (dl_minchunksize P));
               minchunk = (if minchunk > FI_MIN_CHUNK_SPLIT then minchunk else FI_MIN_CHUNK_SPLIT);
               fc = (case fi_find_largest fi d of
                       None \<Rightarrow> None
                     | Some lg \<Rightarrow> if fc_to lg - fc_from lg < minchunk then None else Some lg)
           in case fi_missing_coverage P D fi d of
                Inl e \<Rightarrow> Inl e
              | Inr missing_coverage \<Rightarrow>
                 (case (case fc of
                          None \<Rightarrow> Inr False
                        | Some lg \<Rightarrow>
                            (case fc_download lg of
                               None \<Rightarrow> Inl Assertion_failed
                             | Some ow \<Rightarrow>
                                 (case fi_missing_coverage P D fi ow of
                                    Inl e \<Rightarrow> Inl e
                                  | Inr longest_missing_coverage \<Rightarrow>
                                      Inr (d_speed_avg (D ow) = 0
                                           \<or> missing_coverage > longest_missing_coverage
                                           \<or> (\<bar>longest_missing_coverage - missing_coverage\<bar>
                                                 < 1 / 10 ^ 56
                                              \<and> d_speed_avg (D d) > d_speed_avg (D ow)))))) of
                    Inl e \<Rightarrow> Inl e
                  | Inr True \<Rightarrow> aggressive_result d True fc
                  | Inr False \<Rightarrow>
                      (case fi_find_slowest D fi d of
                         Inl e \<Rightarrow> Inl e
                       | Inr None \<Rightarrow> aggressive_result d False None
                       | Inr (Some sw) \<Rightarrow>
                           (case fc_download sw of
                              None \<Rightarrow> Inl Assertion_failed
                            | Some ow \<Rightarrow>
                                (case fi_missing_coverage P D fi ow of
                                   Inl e \<Rightarrow> Inl e
                                 | Inr slowest_missing_coverage \<Rightarrow>
                                     aggressive_result d
                                       (missing_coverage \<ge> slowest_missing_coverage
                                        \<and> d_speed_avg (D d) > d_speed_avg (D ow))
                                       (Some sw)))))))"

subsubsection \<open>Reserving the selected range\<close>

definition file_info_reserve :: "gnet_props \<Rightarrow> downloads \<Rightarrow> download_id \<Rightarrow> filesize_t
    \<Rightarrow> filesize_t \<Rightarrow> dl_file_chunk option \<Rightarrow> fileinfo \<Rightarrow> fi_error + fileinfo" where
  "file_info_reserve P D d frm til chunk fi =
     (if \<not> til \<ge> frm then Inl Assertion_failed
      else if (case chunk of
                 None \<Rightarrow> False
               | Some c \<Rightarrow> \<not> (frm \<ge> fc_from c \<and> til \<le> fc_to c \<and> fc_download c \<noteq> None
                              \<and> fc_download c \<noteq> Some d \<and> fc_status c = DL_CHUNK_BUSY))
        then Inl Assertion_failed
      else if \<not> fileinfo_debug P > 2 then
        (case file_info_update P d frm til DL_CHUNK_BUSY fi of
           Inl e \<Rightarrow> Inl e
         | Inr fi' \<Rightarrow> if file_info_check_chunklist P fi' True then Inr fi'
                      else Inl Assertion_failed)
      else
        (case fi_busy_count P D fi d of
           Inl e \<Rightarrow> Inl e
         | Inr busy \<Rightarrow>
            (case (case chunk of
                     None \<Rightarrow> Inr None
                   | Some c \<Rightarrow>
                       (case fc_download c of
                          None \<Rightarrow> Inl Assertion_failed
                        | Some old_d \<Rightarrow>
                            (case fi_busy_count P D fi old_d of
                               Inl e \<Rightarrow> Inl e
                             | Inr old_busy \<Rightarrow>
                                 if old_busy \<ge> 1 then Inr (Some (old_d, old_busy))
                                 else Inl Assertion_failed))) of
               Inl e \<Rightarrow> Inl e
             | Inr old \<Rightarrow>
                (case file_info_update P d frm til DL_CHUNK_BUSY fi of
                   Inl e \<Rightarrow> Inl e
                 | Inr fi' \<Rightarrow>
                    (case fi_busy_count P D fi' d of
                       Inl e \<Rightarrow> Inl e
                     | Inr new_busy \<Rightarrow>
                        if busy + 1 \<noteq> new_busy
                           \<or> \<not> new_busy \<le> 1 + (if d_pipelining (D d) then 1 else 0)
                        then Inl Assertion_failed
                        else
                          (case (case old of
                                   None \<Rightarrow> Inr ()
                                 | Some (old_d, old_busy) \<Rightarrow>
                                     (case fi_busy_count P D fi' old_d of
                                        Inl e \<Rightarrow> Inl e
                                      | Inr updated_busy \<Rightarrow>
                                          if updated_busy \<le> old_busy
                                             \<and> updated_busy \<ge> old_busy - 1
                                          then Inr () else Inl Assertion_failed)) of
                             Inl e \<Rightarrow> Inl e
                           | Inr u \<Rightarrow>
                               if file_info_check_chunklist P fi' True then Inr fi'
                               else Inl Assertion_failed))))))"

subsubsection \<open>\<open>file_info_find_hole\<close>\<close>

text \<open>
  The result is the returned status, the range written to \<open>*from\<close> and \<open>*to\<close> when a
  chunk was reserved, and the new state.  \<open>find_hole_select\<close> is the part of the function
  from the scan of the list \<open>cklist\<close> to the end.
\<close>

definition find_hole_select :: "gnet_props \<Rightarrow> downloads \<Rightarrow> download_id \<Rightarrow> filesize_t
    \<Rightarrow> dl_file_chunk list \<Rightarrow> fileinfo
    \<Rightarrow> fi_error + (fileinfo \<times> dl_chunk_status \<times> (filesize_t \<times> filesize_t) option)" where
  "find_hole_select P D d chunksize cklist fi =
     (case hole_scan D d cklist 0 of
        Inl e \<Rightarrow> Inl e
      | Inr (Some fc, pipelined) \<Rightarrow>
          (let frm = fc_from fc;
               til = (if fc_to fc - fc_from fc > chunksize then fc_from fc + chunksize
                      else fc_to fc)
           in case file_info_reserve P D d frm til None fi of
                Inl e \<Rightarrow> Inl e
              | Inr fi' \<Rightarrow> Inr (fi', DL_CHUNK_EMPTY, Some (frm, til)))
      | Inr (None, pipelined) \<Rightarrow>
          (let busy = 0 - pipelined in
           if \<not> (sint busy < sint (fi_lifecount fi)) then Inl Assertion_failed
           else case (if use_aggressive_swarming P
                      then fi_find_aggressive_candidate P D d busy fi
                      else Inr None) of
             Inl e \<Rightarrow> Inl e
           | Inr (Some (start, end, chunk)) \<Rightarrow>
               (case file_info_reserve P D d start end (Some chunk) fi of
                  Inl e \<Rightarrow> Inl e
                | Inr fi' \<Rightarrow> Inr (fi', DL_CHUNK_EMPTY, Some (start, end)))
           | Inr None \<Rightarrow>
               Inr (fi, if fi_done fi = fi_size fi then DL_CHUNK_DONE else DL_CHUNK_BUSY, None)))"

definition file_info_find_hole :: "gnet_props \<Rightarrow> fi_env \<Rightarrow> downloads \<Rightarrow> download_id \<Rightarrow> fileinfo
    \<Rightarrow> fi_error + (downloads \<times> fileinfo \<times> dl_chunk_status \<times> (filesize_t \<times> filesize_t) option)" where
  "file_info_find_hole P E D d fi =
     (if \<not> (0 <s fi_refcount fi) \<or> \<not> (0 <s fi_lifecount fi)
         \<or> \<not> file_info_check_chunklist P fi True then Inl Assertion_failed
      else case fi_busy_count P D fi d of
        Inl e \<Rightarrow> Inl e
      | Inr reserved \<Rightarrow>
        if \<not> (reserved \<ge> 0 \<and> reserved \<le> (if d_pipelining (D d) then 1 else 0))
        then Inl Assertion_failed
        else if fi_done fi \<noteq> 0 \<and> fi_done fi = fi_size fi then Inr (D, fi, DL_CHUNK_DONE, None)
        else case (if fi_done fi \<noteq> 0 then fi_check_file P E D fi else Inr (D, fi)) of
          Inl e \<Rightarrow> Inl e
        | Inr (D1, fi1) \<Rightarrow>
          if \<not> (0 <s fi_lifecount fi1) then Inl Assertion_failed
          else case (if pfsp_server P then list_clone_shift P E fi1
                     else Inr (fi_chunklist fi1, fi1)) of
            Inl e \<Rightarrow> Inl e
          | Inr (cklist, fi2) \<Rightarrow>
              (case find_hole_select P D1 d (find_hole_chunksize P E D1 d fi1) cklist fi2 of
                 Inl e \<Rightarrow> Inl e
               | Inr (fi3, st, rg) \<Rightarrow> Inr (D1, fi3, st, rg)))"

subsection \<open>Sequences of operations\<close>

text \<open>The bounds of the chunks, without their labels.\<close>

definition geometry :: "dl_file_chunk list \<Rightarrow> (filesize_t \<times> filesize_t) list" where
  "geometry l = map (\<lambda>fc. (fc_from fc, fc_to fc)) l"


text \<open>
  The public operations on the chunk list of one record, and the run of a sequence of
  them from a state made of the download table and the record.  A failed assertion ends
  the run.
\<close>

datatype fi_op =
    Op_update download_id filesize_t filesize_t dl_chunk_status
  | Op_merge_adjacent
  | Op_find_hole fi_env download_id
  | Op_clear_download download_id bool
  | Op_reset

fun apply_op :: "gnet_props \<Rightarrow> fi_op \<Rightarrow> downloads \<times> fileinfo \<Rightarrow> fi_error + (downloads \<times> fileinfo)" where
  "apply_op P (Op_update d frm til status) (D, fi) =
     (case file_info_update P d frm til status fi of Inl e \<Rightarrow> Inl e | Inr fi' \<Rightarrow> Inr (D, fi'))"
| "apply_op P Op_merge_adjacent (D, fi) =
     (case file_info_merge_adjacent P fi of Inl e \<Rightarrow> Inl e | Inr fi' \<Rightarrow> Inr (D, fi'))"
| "apply_op P (Op_find_hole E d) (D, fi) =
     (case file_info_find_hole P E D d fi of
        Inl e \<Rightarrow> Inl e
      | Inr (D', fi', st, rg) \<Rightarrow> Inr (D', fi'))"
| "apply_op P (Op_clear_download d lifecount) (D, fi) =
     (case file_info_clear_download P D d lifecount fi of
        Inl e \<Rightarrow> Inl e
      | Inr fi' \<Rightarrow> Inr (D, fi'))"
| "apply_op P Op_reset (D, fi) = file_info_reset P D fi"

fun run_ops :: "gnet_props \<Rightarrow> fi_op list \<Rightarrow> downloads \<times> fileinfo
    \<Rightarrow> fi_error + (downloads \<times> fileinfo)" where
  "run_ops P [] s = Inr s"
| "run_ops P (op # ops) s =
     (case apply_op P op s of Inl e \<Rightarrow> Inl e | Inr s' \<Rightarrow> run_ops P ops s')"

fun is_update_or_merge :: "fi_op \<Rightarrow> bool" where
  "is_update_or_merge (Op_update d frm til status) = True"
| "is_update_or_merge Op_merge_adjacent = True"
| "is_update_or_merge op = False"

text \<open>The bytes lying in Done chunks, counted in the natural numbers.\<close>

fun done_total :: "dl_file_chunk list \<Rightarrow> nat" where
  "done_total [] = 0"
| "done_total (fc # sl) =
     (if fc_status fc = DL_CHUNK_DONE then (unat (fc_to fc) - unat (fc_from fc)) + done_total sl
      else done_total sl)"

definition dl_example :: download where
  "dl_example = \<lparr>d_file_size = 1000, d_served_reqs = 1, d_pipelining = False, d_speed_avg = 0,
     d_ranges = [], d_ranges_size = 0, d_running = True\<rparr>"

definition downloads_example :: downloads where
  "downloads_example = (\<lambda>i. if i = 2 then dl_example\<lparr>d_speed_avg := 100\<rparr> else dl_example)"




subsection \<open>Learning the SHA1 of a running download: \<open>file_info_got_sha1\<close>\<close>

text \<open>
  The part of the process-wide state that \<open>file_info_got_sha1\<close> touches: the live
  records by handle, the table \<open>fi_by_sha1\<close>, and for every attached download the record
  it points to (\<open>d->file_info\<close>).
\<close>

type_synonym fi_id = nat

record registry =
  reg_files :: "fi_id \<rightharpoonup> fileinfo"
  reg_by_sha1 :: "uint8 list \<rightharpoonup> fi_id"
  reg_file_info :: "download_id \<rightharpoonup> fi_id"

text \<open>
  Modelled from the spec: \<open>download_info_change_all\<close> belongs to the protocol layer.  All
  sources attached to the record \<open>old\<close> are reparented onto the record \<open>new\<close>: each is
  removed from the one and added to the other, which moves the reference counts along
  (\<open>file_info_remove_source\<close>, \<open>file_info_add_source\<close>) and leaves \<open>old\<close> unreferenced,
  as the assertions of \<open>file_info_reparent_all\<close> expect.  No chunk list is touched.
\<close>

definition download_info_change_all :: "registry \<Rightarrow> fi_id \<Rightarrow> fi_id \<Rightarrow> registry" where
  "download_info_change_all R old new =
     (case (reg_files R old, reg_files R new) of
        (Some ofi, Some nfi) \<Rightarrow>
          R\<lparr>reg_files := (reg_files R)
                (old \<mapsto> ofi\<lparr>fi_refcount := 0, fi_lifecount := 0\<rparr>,
                 new \<mapsto> nfi\<lparr>fi_refcount := fi_refcount nfi + fi_refcount ofi,
                            fi_lifecount := fi_lifecount nfi + fi_lifecount ofi\<rparr>),
            reg_file_info := (\<lambda>d. if reg_file_info R d = Some old then Some new
                                   else reg_file_info R d)\<rparr>
      | _ \<Rightarrow> R)"

text \<open>
  \<open>file_info_hash_remove\<close> followed by \<open>fi_free\<close>, as far as the state above goes: the
  entry of the record in \<open>fi_by_sha1\<close> is removed if the record has a SHA1, and the record
  is gone.
\<close>

definition fi_discard :: "registry \<Rightarrow> fi_id \<Rightarrow> registry" where
  "fi_discard R f =
     (case reg_files R f of
        None \<Rightarrow> R
      | Some fi \<Rightarrow>
          R\<lparr>reg_by_sha1 := (case fi_sha1 fi of
                              None \<Rightarrow> reg_by_sha1 R
                            | Some s \<Rightarrow> (reg_by_sha1 R)(s := None)),
            reg_files := (reg_files R)(f := None)\<rparr>)"

text \<open>
  \<open>file_info_reparent_all(from, to)\<close>.  Unlinking the file of \<open>from\<close> on disk is not part
  of the state.
\<close>

definition file_info_reparent_all :: "registry \<Rightarrow> fi_id \<Rightarrow> fi_id \<Rightarrow> fi_error + registry" where
  "file_info_reparent_all R frm to =
     (case (reg_files R frm, reg_files R to) of
        (Some ffi, Some tfi) \<Rightarrow>
          if fi_done ffi \<noteq> 0 then Inl Assertion_failed
          else if fi_pathname ffi = fi_pathname tfi then Inl Assertion_failed
          else
            (let R1 = download_info_change_all R frm to in
             case reg_files R1 frm of
               None \<Rightarrow> Inl Null_dereference
             | Some ffi1 \<Rightarrow>
                 if fi_refcount ffi1 \<noteq> 0 \<or> fi_lifecount ffi1 \<noteq> 0 then Inl Assertion_failed
                 else Inr (fi_discard R1 frm))
      | _ \<Rightarrow> Inl Null_dereference)"

text \<open>The result is the returned boolean and the new state.\<close>

definition file_info_got_sha1 :: "registry \<Rightarrow> fi_id \<Rightarrow> uint8 list \<Rightarrow> fi_error + (bool \<times> registry)" where
  "file_info_got_sha1 R f sha1 =
     (case reg_files R f of
        None \<Rightarrow> Inl Null_dereference
      | Some fi \<Rightarrow>
          if fi_sha1 fi \<noteq> None then Inl Assertion_failed
          else
            (case reg_by_sha1 R sha1 of
               None \<Rightarrow>
                 Inr (True, R\<lparr>reg_files := (reg_files R)(f \<mapsto> fi\<lparr>fi_sha1 := Some sha1\<rparr>),
                              reg_by_sha1 := (reg_by_sha1 R)(sha1 \<mapsto> f)\<rparr>)
             | Some x \<Rightarrow>
                 (case reg_files R x of
                    None \<Rightarrow> Inl Null_dereference
                  | Some xfi \<Rightarrow>
                      if fi_done fi \<noteq> 0 \<and> fi_done xfi \<noteq> 0 then Inr (False, R)
                      else if fi_done fi \<noteq> 0 then
                        (case file_info_reparent_all
                                (R\<lparr>reg_files := (reg_files R)(f \<mapsto> fi\<lparr>fi_sha1 := Some sha1\<rparr>)\<rparr>)
                                x f of
                           Inl e \<Rightarrow> Inl e
                         | Inr R' \<Rightarrow> Inr (True, R'\<lparr>reg_by_sha1 := (reg_by_sha1 R')(sha1 \<mapsto> f)\<rparr>))
                      else
                        (case file_info_reparent_all R f x of
                           Inl e \<Rightarrow> Inl e
                         | Inr R' \<Rightarrow> Inr (True, R')))))"

definition registry_example :: "filesize_t \<Rightarrow> filesize_t \<Rightarrow> registry" where
  "registry_example dn1 dn2 =
     \<lparr>reg_files = [3 \<mapsto> (fi_example 1000 dn1 [])\<lparr>fi_pathname := ''/incomplete/a''\<rparr>,
                   4 \<mapsto> (fi_example 1000 dn2 [])\<lparr>fi_pathname := ''/incomplete/b'',
                                                  fi_sha1 := Some [7]\<rparr>],
      reg_by_sha1 = [[7] \<mapsto> 4],
      reg_file_info = [10 \<mapsto> 3, 11 \<mapsto> 3, 12 \<mapsto> 4]\<rparr>"

subsection \<open>The binary trailer\<close>

text \<open>
  Byte strings are lists of bytes; \<open>fi_sha1\<close>, \<open>fi_cha1\<close>, \<open>fi_tth\<close> and \<open>fi_guid\<close> hold
  the raw digests, \<open>fi_tigertree\<close> the array of leaves (empty for a null pointer), and an
  alias is the bytes of a C string.  The sizes of the raw SHA1 and TTH digests and of the
  base32 form of a SHA1 are declared in headers that are not at hand; they are 160 bits,
  192 bits and 32 characters.
\<close>

definition SHA1_RAW_SIZE :: nat where "SHA1_RAW_SIZE = 20"
definition TTH_RAW_SIZE :: nat where "TTH_RAW_SIZE = 24"
definition GUID_RAW_SIZE :: nat where "GUID_RAW_SIZE = 16"
definition SHA1_BASE32_SIZE :: nat where "SHA1_BASE32_SIZE = 32"

definition FILE_INFO_MAGIC32 :: uint32 where "FILE_INFO_MAGIC32 = 0xD1BB1ED0"
definition FILE_INFO_MAGIC64 :: uint32 where "FILE_INFO_MAGIC64 = 0x91E63640"
definition FILE_INFO_VERSION :: uint32 where "FILE_INFO_VERSION = 6"

definition FILE_INFO_FIELD_NAME :: uint32 where "FILE_INFO_FIELD_NAME = 1"
definition FILE_INFO_FIELD_ALIAS :: uint32 where "FILE_INFO_FIELD_ALIAS = 2"
definition FILE_INFO_FIELD_SHA1 :: uint32 where "FILE_INFO_FIELD_SHA1 = 3"
definition FILE_INFO_FIELD_CHUNK :: uint32 where "FILE_INFO_FIELD_CHUNK = 4"
definition FILE_INFO_FIELD_END :: uint32 where "FILE_INFO_FIELD_END = 5"
definition FILE_INFO_FIELD_CHA1 :: uint32 where "FILE_INFO_FIELD_CHA1 = 6"
definition FILE_INFO_FIELD_GUID :: uint32 where "FILE_INFO_FIELD_GUID = 7"
definition FILE_INFO_FIELD_TTH :: uint32 where "FILE_INFO_FIELD_TTH = 8"
definition FILE_INFO_FIELD_TIGERTREE :: uint32 where "FILE_INFO_FIELD_TIGERTREE = 9"

text \<open>
  What the codec takes from its surroundings: \<open>FI_MAX_FIELD_LEN\<close> (the product of
  \<open>TTH_RAW_SIZE\<close> and a constant declared elsewhere), the bytes that lie in the trailer
  buffer beyond the trailer read from the file, the initial content of the local buffer
  \<open>tmp\<close>, the byte order of the host, the current time, the GUID drawn for a record
  that has none, and the outcome of the tiger tree validation of \<open>fi_tigertree_check\<close>
  (leaf count against the file size and root hash against the TTH).
\<close>

record codec_env =
  max_field_len :: nat
  arena_rest :: "uint8 list"
  tmp_init :: "uint8 list"
  host_big_endian :: bool
  time_now :: uint32
  random_guid :: "uint8 list"
  tigertree_ok :: "filesize_t \<Rightarrow> bool \<Rightarrow> uint8 list \<Rightarrow> uint8 list \<Rightarrow> bool"

subsubsection \<open>Checksum and byte order\<close>

text \<open>\<open>file_info_checksum\<close>: one step for each byte.\<close>

definition checksum_step :: "uint32 \<Rightarrow> uint8 \<Rightarrow> uint32" where
  "checksum_step c b = (push_bit 1 c) XOR (drop_bit 31 c) XOR ucast b"

definition file_info_checksum :: "uint32 \<Rightarrow> uint8 list \<Rightarrow> uint32" where
  "file_info_checksum c data = foldl checksum_step c data"

text \<open>The four bytes of \<open>htonl(val)\<close> in memory, and the value \<open>ntohl\<close> reads from four bytes.\<close>

definition be32 :: "uint32 \<Rightarrow> uint8 list" where
  "be32 w = [ucast (drop_bit 24 w), ucast (drop_bit 16 w), ucast (drop_bit 8 w), ucast w]"

definition u32_be :: "uint8 list \<Rightarrow> uint32" where
  "u32_be bs = (case bs of
      [b0, b1, b2, b3] \<Rightarrow> push_bit 24 (ucast b0) OR push_bit 16 (ucast b1)
                          OR push_bit 8 (ucast b2) OR ucast b3
    | _ \<Rightarrow> 0)"

text \<open>Four bytes read as a 32-bit value in the byte order of the host.\<close>

definition u32_native :: "bool \<Rightarrow> uint8 list \<Rightarrow> uint32" where
  "u32_native big bs = (if big then u32_be bs else u32_be (rev bs))"

subsubsection \<open>Writing: \<open>file_info_fd_store_binary\<close>\<close>

text \<open>The write buffer with the running checksum.\<close>

type_synonym wstate = "uint8 list \<times> uint32"

definition WRITE_CHAR :: "uint8 \<Rightarrow> wstate \<Rightarrow> wstate" where
  "WRITE_CHAR v w = (fst w @ [v], file_info_checksum (snd w) [v])"

definition WRITE_UINT32 :: "uint32 \<Rightarrow> wstate \<Rightarrow> wstate" where
  "WRITE_UINT32 v w = (fst w @ be32 v, file_info_checksum (snd w) (be32 v))"

definition WRITE_STR :: "uint8 list \<Rightarrow> nat \<Rightarrow> wstate \<Rightarrow> wstate" where
  "WRITE_STR data n w = (fst w @ take n data, file_info_checksum (snd w) (take n data))"

definition FIELD_ADD :: "uint32 \<Rightarrow> nat \<Rightarrow> uint8 list \<Rightarrow> wstate \<Rightarrow> wstate" where
  "FIELD_ADD fid n data w = WRITE_STR data n (WRITE_UINT32 (of_nat n) (WRITE_UINT32 fid w))"

definition add_optional :: "uint32 \<Rightarrow> nat \<Rightarrow> uint8 list option \<Rightarrow> wstate \<Rightarrow> wstate" where
  "add_optional fid n data w = (case data of None \<Rightarrow> w | Some bs \<Rightarrow> FIELD_ADD fid n bs w)"

text \<open>\<open>strlen\<close> of an alias.\<close>

definition strlen :: "uint8 list \<Rightarrow> nat" where
  "strlen s = length (takeWhile (\<lambda>b. b \<noteq> 0) s)"

fun add_aliases :: "nat \<Rightarrow> uint8 list list \<Rightarrow> wstate \<Rightarrow> wstate" where
  "add_aliases mfl [] w = w"
| "add_aliases mfl (a # sl) w =
     add_aliases mfl sl
       (if strlen a < mfl then FIELD_ADD FILE_INFO_FIELD_ALIAS (strlen a) a w else w)"

definition chunk_bytes :: "dl_file_chunk \<Rightarrow> uint8 list" where
  "chunk_bytes fc =
     be32 (ucast (drop_bit 32 (fc_from fc))) @ be32 (ucast (fc_from fc)) @
     be32 (ucast (drop_bit 32 (fc_to fc))) @ be32 (ucast (fc_to fc)) @ be32 (fc_status fc)"

fun add_chunks :: "dl_file_chunk list \<Rightarrow> wstate \<Rightarrow> wstate" where
  "add_chunks [] w = w"
| "add_chunks (fc # sl) w = add_chunks sl (FIELD_ADD FILE_INFO_FIELD_CHUNK 20 (chunk_bytes fc) w)"

text \<open>
  The result is the trailer, which is written at offset \<open>fi->size\<close> of the file before
  the file is truncated just after it, and the record with its generation number
  incremented.
\<close>

definition file_info_fd_store_binary :: "gnet_props \<Rightarrow> nat \<Rightarrow> fileinfo
    \<Rightarrow> fi_error + (uint8 list \<times> fileinfo)" where
  "file_info_fd_store_binary P mfl fi =
     (case fi_guid fi of
        None \<Rightarrow> Inl Null_dereference
      | Some guid \<Rightarrow>
         (let w = WRITE_UINT32 FILE_INFO_VERSION ([], 0);
              w = WRITE_UINT32 (fi_created fi) w;
              w = WRITE_UINT32 (fi_ntime fi) w;
              w = WRITE_CHAR (if fi_file_size_known fi then 1 else 0) w;
              w = FIELD_ADD FILE_INFO_FIELD_GUID GUID_RAW_SIZE guid w;
              w = add_optional FILE_INFO_FIELD_TTH TTH_RAW_SIZE (fi_tth fi) w;
              w = (if fi_tigertree fi \<noteq> []
                   then FIELD_ADD FILE_INFO_FIELD_TIGERTREE (length (fi_tigertree fi))
                          (fi_tigertree fi) w
                   else w);
              w = add_optional FILE_INFO_FIELD_SHA1 SHA1_RAW_SIZE (fi_sha1 fi) w;
              w = add_optional FILE_INFO_FIELD_CHA1 SHA1_RAW_SIZE (fi_cha1 fi) w;
              w = add_aliases mfl (fi_alias fi) w
          in if \<not> file_info_check_chunklist P fi True then Inl Assertion_failed
             else
              (let w = add_chunks (fi_chunklist fi) w;
                   generation = fi_generation fi + 1;
                   w = WRITE_UINT32 FILE_INFO_FIELD_END w;
                   w = WRITE_UINT32 (ucast (drop_bit 32 (fi_size fi))) w;
                   w = WRITE_UINT32 (ucast (fi_size fi)) w;
                   w = WRITE_UINT32 generation w;
                   len = (of_nat (length (fst w) + 12) :: uint32);
                   w = WRITE_UINT32 len w;
                   w = WRITE_UINT32 (snd w) w;
                   w = WRITE_UINT32 FILE_INFO_MAGIC64 w
               in Inr (fst w, fi\<lparr>fi_generation := generation\<rparr>))))"

text \<open>The file after the store: \<open>fi->size\<close> bytes of data followed by the trailer.\<close>

definition stored_file :: "uint8 list \<Rightarrow> fileinfo \<Rightarrow> uint8 list \<Rightarrow> uint8 list" where
  "stored_file content fi trailer =
     take (unat (fi_size fi)) (content @ replicate (unat (fi_size fi)) 0) @ trailer"

subsubsection \<open>Aliases: \<open>looks_like_urn\<close> and \<open>fi_alias\<close>\<close>

text \<open>A C string is the list of its bytes before the terminating NUL.\<close>

definition cstring :: "uint8 list \<Rightarrow> uint8 list" where
  "cstring buf = takeWhile (\<lambda>b. b \<noteq> 0) buf"

definition is_ascii_alnum :: "uint8 \<Rightarrow> bool" where
  "is_ascii_alnum c = ((0x30 \<le> c \<and> c \<le> 0x39) \<or> (0x41 \<le> c \<and> c \<le> 0x5A) \<or> (0x61 \<le> c \<and> c \<le> 0x7A))"

definition ascii_tolower :: "uint8 \<Rightarrow> uint8" where
  "ascii_tolower c = (if 0x41 \<le> c \<and> c \<le> 0x5A then c + 32 else c)"

text \<open>
  \<open>is_strcaseprefix\<close> is declared in \<open>misc.h\<close>, its body is not at hand: the string that
  follows the prefix when \<open>s\<close> starts with it, letters of either case being equal, and no
  result otherwise.
\<close>

fun is_strcaseprefix :: "uint8 list \<Rightarrow> uint8 list \<Rightarrow> uint8 list option" where
  "is_strcaseprefix s [] = Some s"
| "is_strcaseprefix [] (p # ps) = None"
| "is_strcaseprefix (c # s) (p # ps) =
     (if ascii_tolower c = ascii_tolower p then is_strcaseprefix s ps else None)"

definition str_urn :: "uint8 list" where "str_urn = [0x75, 0x72, 0x6E]"
definition str_sha1 :: "uint8 list" where "str_sha1 = [0x73, 0x68, 0x61, 0x31]"
definition str_bitprint :: "uint8 list" where
  "str_bitprint = [0x62, 0x69, 0x74, 0x70, 0x72, 0x69, 0x6E, 0x74]"

definition looks_like_urn :: "uint8 list \<Rightarrow> bool" where
  "looks_like_urn filename =
     (case (case is_strcaseprefix filename str_urn of
              Some p \<Rightarrow> (if p = [] then None else Some (tl p))
            | None \<Rightarrow> Some filename) of
        None \<Rightarrow> False
      | Some p \<Rightarrow>
         (case (case is_strcaseprefix p str_sha1 of
                  Some q \<Rightarrow> Some q
                | None \<Rightarrow> is_strcaseprefix p str_bitprint) of
            None \<Rightarrow> False
          | Some q \<Rightarrow>
             if q = [] then False
             else \<not> (length (takeWhile is_ascii_alnum (take SHA1_BASE32_SIZE (tl q)))
                       < SHA1_BASE32_SIZE)))"

text \<open>
  \<open>fi_alias\<close> with \<open>record\<close> false.  \<open>known\<close> tells whether the table of names and sizes
  already lists this record under the name.
\<close>

definition fi_alias_add :: "bool \<Rightarrow> uint8 list \<Rightarrow> fileinfo \<Rightarrow> fileinfo" where
  "fi_alias_add known name fi =
     (if known then fi
      else if looks_like_urn name then fi
      else fi\<lparr>fi_alias := fi_alias fi @ [name]\<rparr>)"

subsubsection \<open>Reading: \<open>file_info_get_trailer\<close>\<close>

record trailer =
  tr_filesize :: filesize_t
  tr_generation :: uint32
  tr_length :: uint32
  tr_checksum :: uint32
  tr_magic :: uint32

text \<open>The \<open>i\<close>-th 32-bit cell of a byte array.\<close>

definition cell :: "nat \<Rightarrow> uint8 list \<Rightarrow> uint8 list" where
  "cell i bs = take 4 (drop (4 * i) bs)"

text \<open>
  The file is given by its bytes; it can be opened, is a regular file and is read without
  error.  The fixed trailer is the last six 32-bit values of the file.
\<close>

definition file_info_get_trailer :: "uint8 list \<Rightarrow> trailer option" where
  "file_info_get_trailer file =
     (if length file < 24 then None
      else
       (let tr = drop (length file - 24) file;
            magic = u32_be (cell 5 tr)
        in if magic \<noteq> FILE_INFO_MAGIC64 \<and> magic \<noteq> FILE_INFO_MAGIC32 then None
           else
            (let filesize_hi = (if magic = FILE_INFO_MAGIC64
                                then push_bit 32 (ucast (u32_be (cell 0 tr)) :: filesize_t)
                                else 0);
                 tb = \<lparr>tr_filesize = filesize_hi OR ucast (u32_be (cell 1 tr)),
                       tr_generation = u32_be (cell 2 tr),
                       tr_length = u32_be (cell 3 tr),
                       tr_checksum = u32_be (cell 4 tr),
                       tr_magic = u32_be (cell 5 tr)\<rparr>
             in if (of_nat (length file) :: filesize_t) \<noteq> tr_filesize tb + ucast (tr_length tb)
                then None
                else Some tb)))"

definition trailer_is_64bit :: "trailer \<Rightarrow> bool" where
  "trailer_is_64bit tb = (tr_magic tb = FILE_INFO_MAGIC64)"

subsubsection \<open>Reading: \<open>file_info_retrieve_binary\<close>\<close>

text \<open>The unread part of the trailer buffer with the running checksum.\<close>

type_synonym rstate = "uint8 list \<times> uint32"

definition READ_CHAR :: "rstate \<Rightarrow> (uint8 \<times> rstate) option" where
  "READ_CHAR r = (case fst r of
                    [] \<Rightarrow> None
                  | b # bs \<Rightarrow> Some (b, (bs, file_info_checksum (snd r) [b])))"

definition READ_UINT32 :: "rstate \<Rightarrow> (uint32 \<times> rstate) option" where
  "READ_UINT32 r =
     (if 4 \<le> length (fst r)
      then Some (u32_be (take 4 (fst r)),
                 (drop 4 (fst r), file_info_checksum (snd r) (take 4 (fst r))))
      else None)"

definition READ_STR :: "nat \<Rightarrow> rstate \<Rightarrow> (uint8 list \<times> rstate) option" where
  "READ_STR n r =
     (if n \<le> length (fst r)
      then Some (take n (fst r), (drop n (fst r), file_info_checksum (snd r) (take n (fst r))))
      else None)"

definition file_info_got_tth :: "uint8 list \<Rightarrow> fileinfo \<Rightarrow> fileinfo" where
  "file_info_got_tth tth fi = (if fi_tth fi \<noteq> None then fi else fi\<lparr>fi_tth := Some tth\<rparr>)"

definition file_info_got_tigertree :: "uint8 list \<Rightarrow> nat \<Rightarrow> fileinfo \<Rightarrow> fileinfo" where
  "file_info_got_tigertree leaves num_leaves fi =
     (if \<not> 0 < num_leaves then fi
      else if \<not> length (fi_tigertree fi) div TTH_RAW_SIZE < num_leaves then fi
      else if \<not> fi_file_size_known fi then fi
      else fi\<lparr>fi_tigertree := take (num_leaves * TTH_RAW_SIZE) leaves\<rparr>)"

text \<open>
  The CHUNK field: twenty bytes of \<open>tmp\<close> are taken as five 32-bit cells, whatever the
  length of the field.  The new chunk has no owner, and a Busy status read from the file
  becomes Empty.
\<close>

definition read_chunk :: "codec_env \<Rightarrow> uint32 \<Rightarrow> bool \<Rightarrow> uint8 list \<Rightarrow> fi_error + dl_file_chunk" where
  "read_chunk E version t64 tmp =
     (let tmpchunk = take 20 tmp in
      if \<not> t64 then
        (if \<not> version < 6 then Inl Assertion_failed
         else
          (let rd = (if version = 1 then u32_native (host_big_endian E) else u32_be);
               st = rd (cell 2 tmpchunk)
           in Inr \<lparr>fc_from = ucast (rd (cell 0 tmpchunk)), fc_to = ucast (rd (cell 1 tmpchunk)),
                   fc_download = None,
                   fc_status = (if st = DL_CHUNK_BUSY then DL_CHUNK_EMPTY else st)\<rparr>))
      else
        (if \<not> 6 \<le> version then Inl Assertion_failed
         else
          (let st = u32_be (cell 4 tmpchunk)
           in Inr \<lparr>fc_from = push_bit 32 (ucast (u32_be (cell 0 tmpchunk)))
                               OR ucast (u32_be (cell 1 tmpchunk)),
                   fc_to = push_bit 32 (ucast (u32_be (cell 2 tmpchunk)))
                             OR ucast (u32_be (cell 3 tmpchunk)),
                   fc_download = None,
                   fc_status = (if st = DL_CHUNK_BUSY then DL_CHUNK_EMPTY else st)\<rparr>)))"

text \<open>
  The \<open>switch\<close> on the field id.  \<open>n\<close> is the length of the field and \<open>tmp\<close> the buffer
  holding its bytes followed by a NUL; \<open>chunklist\<close> grows at its head.  The record is
  freshly allocated, so the table of names and sizes cannot list it.
\<close>

definition read_field :: "codec_env \<Rightarrow> uint32 \<Rightarrow> bool \<Rightarrow> uint32 \<Rightarrow> nat \<Rightarrow> uint8 list
    \<Rightarrow> fileinfo \<times> dl_file_chunk list \<Rightarrow> fi_error + (fileinfo \<times> dl_file_chunk list)" where
  "read_field E version t64 field n tmp s =
     (let fi = fst s; chunklist = snd s in
      if field = FILE_INFO_FIELD_NAME then
        (if 3 \<le> version then Inr s else Inr (fi_alias_add False (cstring tmp) fi, chunklist))
      else if field = FILE_INFO_FIELD_ALIAS then
        Inr (fi_alias_add False (cstring tmp) fi, chunklist)
      else if field = FILE_INFO_FIELD_GUID then
        (if GUID_RAW_SIZE = n then Inr (fi\<lparr>fi_guid := Some (take GUID_RAW_SIZE tmp)\<rparr>, chunklist)
         else Inr s)
      else if field = FILE_INFO_FIELD_TTH then
        (if TTH_RAW_SIZE = n then Inr (file_info_got_tth (take TTH_RAW_SIZE tmp) fi, chunklist)
         else Inr s)
      else if field = FILE_INFO_FIELD_TIGERTREE then
        (if 0 < n \<and> n mod TTH_RAW_SIZE = 0
         then Inr (file_info_got_tigertree tmp (n div TTH_RAW_SIZE) fi, chunklist)
         else Inr s)
      else if field = FILE_INFO_FIELD_SHA1 then
        (if SHA1_RAW_SIZE = n then Inr (fi\<lparr>fi_sha1 := Some (take SHA1_RAW_SIZE tmp)\<rparr>, chunklist)
         else Inr s)
      else if field = FILE_INFO_FIELD_CHA1 then
        (if SHA1_RAW_SIZE = n then Inr (fi\<lparr>fi_cha1 := Some (take SHA1_RAW_SIZE tmp)\<rparr>, chunklist)
         else Inr s)
      else if field = FILE_INFO_FIELD_CHUNK then
        (case read_chunk E version t64 tmp of
           Inl e \<Rightarrow> Inl e
         | Inr fc \<Rightarrow> Inr (fi, fc # chunklist))
      else Inr s)"

text \<open>
  The loop over the variable-length fields, up to the END marker.  The state is the read
  buffer with its checksum, the buffer \<open>tmp\<close>, the record and the chunks read so far.
\<close>

function read_fields :: "codec_env \<Rightarrow> uint32 \<Rightarrow> bool \<Rightarrow> rstate \<Rightarrow> uint8 list
    \<Rightarrow> fileinfo \<times> dl_file_chunk list
    \<Rightarrow> fi_error + (rstate \<times> fileinfo \<times> dl_file_chunk list)" where
  "read_fields E version t64 r tmp s =
     (case READ_UINT32 r of
        None \<Rightarrow> Inl Unexpected_eof
      | Some (field, r1) \<Rightarrow>
         if field = FILE_INFO_FIELD_END then Inr (r1, s)
         else
          (case READ_UINT32 r1 of
             None \<Rightarrow> Inl Unexpected_eof
           | Some (tmpuint, r2) \<Rightarrow>
              if tmpuint = 0 then Inl Zero_size_field
              else if max_field_len E < unat tmpuint then Inl Field_too_large
              else
               (case READ_STR (unat tmpuint) r2 of
                  None \<Rightarrow> Inl Unexpected_eof
                | Some (data, r3) \<Rightarrow>
                   (let tmp' = data @ [0] @ drop (unat tmpuint + 1) tmp in
                    case read_field E version t64 field (unat tmpuint) tmp' s of
                      Inl e \<Rightarrow> Inl e
                    | Inr s' \<Rightarrow> read_fields E version t64 r3 tmp' s'))))"
  by pat_completeness auto
termination
  by (relation "measure (\<lambda>(E, version, t64, r, tmp, s). length (fst r))")
     (auto simp: READ_UINT32_def READ_STR_def split: if_splits)

definition fi_upgrade_older_version :: "codec_env \<Rightarrow> fileinfo \<Rightarrow> fileinfo" where
  "fi_upgrade_older_version E fi =
     (let fi = (if fi_created fi = 0 then fi\<lparr>fi_created := time_now E\<rparr> else fi);
          fi = (if fi_ntime fi = 0 then fi\<lparr>fi_ntime := fi_created fi\<rparr> else fi);
          fi = (if fi_size fi \<noteq> 0 \<and> \<not> fi_file_size_known fi
                then fi\<lparr>fi_file_size_known := True\<rparr> else fi);
          fi = (if fi_guid fi = None then fi\<lparr>fi_guid := Some (random_guid E)\<rparr> else fi)
      in fi)"

definition fi_tigertree_check :: "codec_env \<Rightarrow> fileinfo \<Rightarrow> fileinfo" where
  "fi_tigertree_check E fi =
     (if fi_tigertree fi \<noteq> [] then
        (case fi_tth fi of
           None \<Rightarrow> fi\<lparr>fi_tigertree := []\<rparr>
         | Some tth \<Rightarrow>
            if tigertree_ok E (fi_size fi) (fi_file_size_known fi) (fi_tigertree fi) tth
            then fi else fi\<lparr>fi_tigertree := []\<rparr>)
      else fi)"

text \<open>
  The part of \<open>file_info_retrieve_binary\<close> after the fields: the chunk list is put in
  order and checked, the record completed, the end of the trailer read back into the
  checksum and the checksum compared with the one of the fixed trailer.
\<close>

definition read_finish :: "gnet_props \<Rightarrow> codec_env \<Rightarrow> uint32 \<Rightarrow> bool \<Rightarrow> trailer
    \<Rightarrow> rstate \<times> fileinfo \<times> dl_file_chunk list \<Rightarrow> fi_error + fileinfo" where
  "read_finish P E version t64 tb s =
     (let r = fst s; fi = (fst (snd s))\<lparr>fi_chunklist := rev (snd (snd s))\<rparr> in
      if \<not> file_info_check_chunklist P fi False then Inl Inconsistent_chunklist
      else
       (let fi = (if version < 4 then fi\<lparr>fi_created := time_now E, fi_ntime := time_now E\<rparr>
                  else fi);
            fi = (if version < 5 then fi\<lparr>fi_file_size_known := True\<rparr> else fi);
            fi = fi_upgrade_older_version E fi
        in case (if t64 then READ_UINT32 r else Some (0, r)) of
             None \<Rightarrow> Inl Unexpected_eof
           | Some (hi, r) \<Rightarrow>
          (case READ_UINT32 r of
             None \<Rightarrow> Inl Unexpected_eof
           | Some (lo, r) \<Rightarrow>
          (case READ_UINT32 r of
             None \<Rightarrow> Inl Unexpected_eof
           | Some (generation, r) \<Rightarrow>
          (case READ_UINT32 r of
             None \<Rightarrow> Inl Unexpected_eof
           | Some (len, r) \<Rightarrow>
              if snd r \<noteq> tr_checksum tb then Inl Checksum_mismatch
              else file_info_merge_adjacent P (fi_tigertree_check E fi))))))"

text \<open>
  The leading fields.  The record starts zeroed, with the size and generation of the fixed
  trailer.
\<close>

definition read_leading :: "uint32 \<Rightarrow> rstate \<Rightarrow> fileinfo \<Rightarrow> (rstate \<times> fileinfo) option" where
  "read_leading version r fi =
     (case (if 4 \<le> version
            then (case READ_UINT32 r of
                    None \<Rightarrow> None
                  | Some (created, r) \<Rightarrow>
                     (case READ_UINT32 r of
                        None \<Rightarrow> None
                      | Some (ntime, r) \<Rightarrow> Some (r, fi\<lparr>fi_created := created, fi_ntime := ntime\<rparr>)))
            else Some (r, fi)) of
        None \<Rightarrow> None
      | Some (r, fi) \<Rightarrow>
         if 5 \<le> version
         then (case READ_CHAR r of
                 None \<Rightarrow> None
               | Some (c, r) \<Rightarrow> Some (r, fi\<lparr>fi_file_size_known := (0 \<noteq> c)\<rparr>))
         else Some (r, fi))"

definition fi_zero :: "string \<Rightarrow> trailer \<Rightarrow> fileinfo" where
  "fi_zero pathname tb = \<lparr>fi_pathname = pathname, fi_size = tr_filesize tb,
     fi_file_size_known = True, fi_use_swarming = True, fi_done = 0, fi_chunklist = [],
     fi_refcount = 0, fi_lifecount = 0, fi_generation = tr_generation tb,
     fi_created = 0, fi_ntime = 0, fi_guid = None, fi_tth = None, fi_tigertree = [],
     fi_sha1 = None, fi_cha1 = None, fi_alias = []\<rparr>"

text \<open>
  \<open>file_info_retrieve_binary\<close> on the bytes of the file.  The value \<open>Inl\<close> stands for the
  null pointer that is returned on every failure (with the reason that is logged) and
  for a failed assertion.  The seek to the start of the trailer fails for an offset
  that is negative as a file offset.  The read buffer holds the bytes read from the file
  followed by what the buffer held before.
\<close>

definition file_info_retrieve_binary :: "gnet_props \<Rightarrow> codec_env \<Rightarrow> string \<Rightarrow> uint8 list
    \<Rightarrow> fi_error + fileinfo" where
  "file_info_retrieve_binary P E pathname file =
     (case file_info_get_trailer file of
        None \<Rightarrow> Inl No_trailer
      | Some tb \<Rightarrow>
         (let t64 = trailer_is_64bit tb in
          if tr_filesize tb <s 0 then Inl Seek_failed
          else
           (let buf = take (unat (tr_length tb)) (drop (unat (tr_filesize tb)) file)
                        @ arena_rest E
            in case READ_UINT32 (buf, 0) of
                 None \<Rightarrow> Inl Unexpected_eof
               | Some (version, r) \<Rightarrow>
                  if (t64 \<and> version > FILE_INFO_VERSION) \<or> (\<not> t64 \<and> version > 5)
                  then Inl Strange_version
                  else
                   (case read_leading version r (fi_zero pathname tb) of
                      None \<Rightarrow> Inl Unexpected_eof
                    | Some (r, fi) \<Rightarrow>
                       (case read_fields E version t64 r (tmp_init E) (fi, []) of
                          Inl e \<Rightarrow> Inl e
                        | Inr s \<Rightarrow> read_finish P E version t64 tb s)))))"

section \<open>Properties of the merge pass\<close>

lemmas status_defs = DL_CHUNK_EMPTY_def DL_CHUNK_BUSY_def DL_CHUNK_DONE_def

lemma status_distinct [simp]:
  "DL_CHUNK_EMPTY \<noteq> DL_CHUNK_BUSY" "DL_CHUNK_BUSY \<noteq> DL_CHUNK_EMPTY"
  "DL_CHUNK_EMPTY \<noteq> DL_CHUNK_DONE" "DL_CHUNK_DONE \<noteq> DL_CHUNK_EMPTY"
  "DL_CHUNK_BUSY \<noteq> DL_CHUNK_DONE" "DL_CHUNK_DONE \<noteq> DL_CHUNK_BUSY"
  by (simp_all add: status_defs)

lemma visit_chunk_simps [simp]:
  "fc_status (visit_chunk fc) = fc_status fc"
  "fc_from (visit_chunk fc) = fc_from fc"
  "fc_to (visit_chunk fc) = fc_to fc"
  "visit_chunk (visit_chunk fc) = visit_chunk fc"
  by (simp_all add: visit_chunk_def)

lemma visit_chunk_fixed:
  "visit_chunk fc = fc \<Longrightarrow> visit_chunk (fc\<lparr>fc_to := t\<rparr>) = fc\<lparr>fc_to := t\<rparr>"
  by (cases fc) (auto simp: visit_chunk_def split: if_splits)

lemma merge_loop_fixed:
  "merged_from fc1 sl \<Longrightarrow> merge_loop fc1 sl dn = Inr (fc1 # sl, dn + done_bytes sl)"
proof (induction sl arbitrary: fc1 dn)
  case Nil
  then show ?case by simp
next
  case (Cons fc sl)
  then show ?case by (auto simp: Let_def visit_done_def)
qed

lemma merge_loop_result:
  "merge_loop fc1 sl dn = Inr (l, d) \<Longrightarrow> visit_chunk fc1 = fc1 \<Longrightarrow>
   \<exists>fc1' sl'. l = fc1' # sl' \<and> merged_from fc1' sl' \<and> visit_chunk fc1' = fc1' \<and>
     fc_status fc1' = fc_status fc1 \<and> fc_from fc1' = fc_from fc1 \<and>
     d = dn + done_bytes sl \<and> done_bytes l = done_bytes (fc1 # sl) \<and>
     busy_chunks l = busy_chunks (fc1 # sl)"
proof (induction sl arbitrary: fc1 dn l d)
  case Nil
  then show ?case by (auto simp: busy_chunks_def)
next
  case (Cons fc sl)
  show ?case
  proof (cases "fc_to fc1 \<noteq> fc_from fc")
    case True
    with Cons.prems show ?thesis by (simp add: Let_def)
  next
    case contig: False
    show ?thesis
    proof (cases "fc_status fc1 = fc_status fc \<and> fc_status fc \<noteq> DL_CHUNK_BUSY")
      case True
      with contig Cons.prems have m: "merge_loop (fc1\<lparr>fc_to := fc_to fc\<rparr>) sl (visit_done fc dn) = Inr (l, d)"
        by (simp add: Let_def)
      have v: "visit_chunk (fc1\<lparr>fc_to := fc_to fc\<rparr>) = fc1\<lparr>fc_to := fc_to fc\<rparr>"
        using Cons.prems(2) by (rule visit_chunk_fixed)
      from Cons.IH [OF m v] obtain fc1' sl' where
        r: "l = fc1' # sl'" "merged_from fc1' sl'" "visit_chunk fc1' = fc1'"
           "fc_status fc1' = fc_status fc1" "fc_from fc1' = fc_from fc1"
           "d = visit_done fc dn + done_bytes sl"
           "done_bytes l = done_bytes (fc1\<lparr>fc_to := fc_to fc\<rparr> # sl)"
           "busy_chunks l = busy_chunks (fc1\<lparr>fc_to := fc_to fc\<rparr> # sl)"
        by auto
      show ?thesis using r True contig
        by (auto simp: visit_done_def busy_chunks_def)
    next
      case False
      with contig Cons.prems obtain l2 where
        m: "merge_loop (visit_chunk fc) sl (visit_done fc dn) = Inr (l2, d)" and l: "l = fc1 # l2"
        by (auto simp: Let_def split: sum.splits)
      from Cons.IH [OF m] obtain fc2' sl' where
        r: "l2 = fc2' # sl'" "merged_from fc2' sl'" "visit_chunk fc2' = fc2'"
           "fc_status fc2' = fc_status fc" "fc_from fc2' = fc_from fc"
           "d = visit_done fc dn + done_bytes sl"
           "done_bytes l2 = done_bytes (visit_chunk fc # sl)"
           "busy_chunks l2 = busy_chunks (visit_chunk fc # sl)"
        by auto
      show ?thesis using r l False contig Cons.prems(2)
        by (auto simp: visit_done_def busy_chunks_def visit_chunk_def)
    qed
  qed
qed


lemma merge_loop_check:
  "check_chunks b sz lst (fc1 # sl) \<Longrightarrow>
   \<exists>l d. merge_loop fc1 sl dn = Inr (l, d) \<and> check_chunks b sz lst l"
proof (induction sl arbitrary: fc1 dn lst)
  case Nil
  then show ?case by simp
next
  case (Cons fc sl)
  from Cons.prems have contig: "fc_to fc1 = fc_from fc"
    and hd_ok: "check_chunks b sz lst [fc1]"
    and tl_ok: "check_chunks b sz (fc_to fc1) (fc # sl)"
    by (auto split: if_splits)
  show ?case
  proof (cases "fc_status fc1 = fc_status fc \<and> fc_status fc \<noteq> DL_CHUNK_BUSY")
    case True
    from Cons.prems have "check_chunks b sz lst (fc1\<lparr>fc_to := fc_to fc\<rparr> # sl)"
      by (auto split: if_splits)
    from Cons.IH [OF this, of "visit_done fc dn"] True contig show ?thesis
      by (auto simp: Let_def)
  next
    case False
    from tl_ok have "check_chunks b sz (fc_to fc1) (visit_chunk fc # sl)"
      by (auto split: if_splits)
    from Cons.IH [OF this, of "visit_done fc dn"] obtain l2 d where
      "merge_loop (visit_chunk fc) sl (visit_done fc dn) = Inr (l2, d)"
      "check_chunks b sz (fc_to fc1) l2" by blast
    with False contig hd_ok show ?thesis
      by (auto simp: Let_def split: if_splits)
  qed
qed

lemma merge_chunks_check:
  "check_chunks b sz 0 cl \<Longrightarrow> \<exists>l d. merge_chunks cl = Inr (l, d) \<and> check_chunks b sz 0 l"
proof (cases cl)
  case Nil
  then show ?thesis by (simp add: merge_chunks_def)
next
  case (Cons fc sl)
  assume "check_chunks b sz 0 cl"
  with Cons have "check_chunks b sz 0 (visit_chunk fc # sl)" by (auto split: if_splits)
  from merge_loop_check [OF this] Cons show ?thesis by (simp add: merge_chunks_def)
qed

lemma merge_chunks_result:
  assumes "merge_chunks cl = Inr (l, d)"
  shows "merge_chunks l = Inr (l, d) \<and> no_mergeable l \<and> busy_chunks l = busy_chunks cl \<and>
         d = done_bytes cl \<and> done_bytes l = done_bytes cl"
proof (cases cl)
  case Nil
  with assms show ?thesis by (auto simp: merge_chunks_def busy_chunks_def)
next
  case (Cons fc sl)
  with assms have m: "merge_loop (visit_chunk fc) sl (visit_done fc 0) = Inr (l, d)"
    by (simp add: merge_chunks_def)
  from merge_loop_result [OF m] obtain fc1' sl' where
    r: "l = fc1' # sl'" "merged_from fc1' sl'" "visit_chunk fc1' = fc1'"
       "fc_status fc1' = fc_status fc" "d = visit_done fc 0 + done_bytes sl"
       "done_bytes l = done_bytes (visit_chunk fc # sl)"
       "busy_chunks l = busy_chunks (visit_chunk fc # sl)"
    by auto
  have nm: "no_mergeable (a # sl2)" if "merged_from a sl2" for a sl2
    using that by (induction sl2 arbitrary: a) auto
  have d: "d = done_bytes cl" using r Cons by (simp add: visit_done_def)
  have dl: "done_bytes l = done_bytes cl" using r Cons by (simp split: if_splits)
  have "merge_chunks l = Inr (l, visit_done fc1' 0 + done_bytes sl')"
    using r merge_loop_fixed [OF r(2)] by (simp add: merge_chunks_def)
  moreover have "visit_done fc1' 0 + done_bytes sl' = done_bytes l"
    using r(1) by (simp add: visit_done_def)
  ultimately show ?thesis using r nm [OF r(2)] d dl Cons
    by (auto simp: busy_chunks_def visit_chunk_def)
qed



section \<open>Invariants of \<open>file_info_update\<close>\<close>

lemma list_end_simps [simp]:
  "list_end a [] = a"
  "list_end a (xs @ [fc]) = fc_to fc"
  "list_end a (fc # xs) = list_end (fc_to fc) xs"
  by (auto simp: list_end_def)

lemma partition_append:
  "partition_from sz a (xs @ ys) =
     (partition_from sz a xs \<and> partition_from sz (list_end a xs) ys)"
  by (induction xs arbitrary: a) auto

lemma list_end_rev [simp]: "list_end a (rev (p # pre)) = fc_to p"
  by (simp add: list_end_def)

lemma list_end_append [simp]: "list_end a (xs @ ys) = list_end (list_end a xs) ys"
  by (induction xs arbitrary: a) auto

lemma partition_check: "partition_from sz a l \<Longrightarrow> check_chunks b sz a l"
  by (induction l arbitrary: a) auto

lemma done_bytes_append [simp]: "done_bytes (xs @ ys) = done_bytes xs + done_bytes ys"
  by (induction xs) auto

lemma done_bytes_rev [simp]: "done_bytes (rev xs) = done_bytes xs"
  by (induction xs) auto

lemma update_body_cases:
  fixes fc :: dl_file_chunk and frm til :: filesize_t
  obtains (skip) "fc_to fc \<le> frm"
  | (past) "\<not> fc_to fc \<le> frm" "fc_from fc \<ge> til"
  | (exact) "\<not> fc_to fc \<le> frm" "\<not> fc_from fc \<ge> til" "fc_from fc = frm" "fc_to fc = til"
  | (short) "\<not> fc_to fc \<le> frm" "\<not> fc_from fc \<ge> til" "fc_from fc = frm" "fc_to fc < til"
  | (long) "\<not> fc_to fc \<le> frm" "\<not> fc_from fc \<ge> til" "fc_from fc = frm" "fc_to fc > til"
  | (inside) "\<not> fc_to fc \<le> frm" "\<not> fc_from fc \<ge> til" "fc_from fc < frm" "fc_to fc \<ge> til"
  | (overlap) "\<not> fc_to fc \<le> frm" "\<not> fc_from fc \<ge> til" "fc_from fc < frm" "fc_to fc < til"
  | (other) "\<not> fc_to fc \<le> frm" "\<not> fc_from fc \<ge> til" "fc_from fc > frm"
  by (cases "fc_to fc \<le> frm"; cases "fc_from fc \<ge> til"; cases "fc_from fc = frm";
      cases "fc_from fc < frm"; cases "fc_to fc = til"; cases "fc_to fc < til") auto


lemma update_body_partition:
  assumes "partition_from sz 0 (rev pre @ fc # sl)" and "frm < til"
  shows "case update_body chk status newval til pre fc sl frm nm dn of
           Continue pre' frm' nm' dn' \<Rightarrow> partition_from sz 0 (rev pre' @ sl) \<and> frm' < til
         | Break l frm' nm' dn' ex \<Rightarrow> partition_from sz 0 l \<and> frm' < til
         | Abort e \<Rightarrow> True"
proof (cases rule: update_body_cases [where fc=fc and frm=frm and til=til])
  case skip
  then show ?thesis using assms by (simp add: update_body_def)
next
  case past
  then show ?thesis using assms by (simp add: update_body_def)
next
  case exact
  then show ?thesis using assms by (auto simp: update_body_def Let_def partition_append)
next
  case short
  then have ne: "fc_to fc \<noteq> til" by auto
  show ?thesis using assms short ne
    by (simp add: update_body_def Let_def partition_append) auto
next
  case long
  then have ne: "fc_to fc \<noteq> til" "\<not> fc_to fc < til" by auto
  show ?thesis
  proof (cases pre)
    case Nil
    then show ?thesis using assms long ne
      by (simp add: update_body_def Let_def partition_append prev_has_status_def) auto
  next
    case (Cons prevfc pre')
    then show ?thesis using assms long ne
      by (simp add: update_body_def Let_def partition_append prev_has_status_def) auto
  qed
next
  case inside
  then have ne: "fc_from fc \<noteq> frm" by auto
  show ?thesis using assms inside ne
    by (simp add: update_body_def Let_def partition_append) auto
next
  case overlap
  then have ne: "fc_from fc \<noteq> frm" "\<not> fc_to fc \<ge> til" by auto
  show ?thesis using assms overlap ne
    by (simp add: update_body_def Let_def partition_append) auto
next
  case other
  then have ne: "fc_from fc \<noteq> frm" "\<not> fc_from fc < frm" by auto
  show ?thesis using assms other ne
    by (simp add: update_body_def Let_def partition_append) auto
qed

lemma update_body_done:
  assumes "done_inv (rev pre @ fc # sl) nm dn"
  shows "case update_body chk status newval til pre fc sl frm nm dn of
           Continue pre' frm' nm' dn' \<Rightarrow> done_inv (rev pre' @ sl) nm' dn'
         | Break l frm' nm' dn' ex \<Rightarrow> done_inv l nm' dn'
         | Abort e \<Rightarrow> True"
proof (cases rule: update_body_cases [where fc=fc and frm=frm and til=til])
  case skip
  then show ?thesis using assms by (simp add: update_body_def)
next
  case past
  then show ?thesis using assms by (simp add: update_body_def)
next
  case exact
  then show ?thesis using assms by (auto simp: update_body_def Let_def done_inv_def)
next
  case short
  then have ne: "fc_to fc \<noteq> til" by auto
  show ?thesis using assms short ne
    by (auto simp: update_body_def Let_def done_inv_def)
next
  case long
  then have ne: "fc_to fc \<noteq> til" "\<not> fc_to fc < til" by auto
  show ?thesis
  proof (cases pre)
    case Nil
    then show ?thesis using assms long ne
      by (auto simp: update_body_def Let_def done_inv_def prev_has_status_def)
  next
    case (Cons prevfc pre')
    then show ?thesis using assms long ne
      by (auto simp: update_body_def Let_def done_inv_def prev_has_status_def)
  qed
next
  case inside
  then have ne: "fc_from fc \<noteq> frm" by auto
  show ?thesis using assms inside ne
    by (auto simp: update_body_def Let_def done_inv_def)
next
  case overlap
  then have ne: "fc_from fc \<noteq> frm" "\<not> fc_to fc \<ge> til" by auto
  show ?thesis using assms overlap ne
    by (auto simp: update_body_def Let_def done_inv_def)
next
  case other
  then have ne: "fc_from fc \<noteq> frm" "\<not> fc_from fc < frm" by auto
  show ?thesis using assms other ne
    by (simp add: update_body_def Let_def)
qed


lemma partition_is_check: "partition_from sz a l = check_chunks True sz a l"
  by (induction l arbitrary: a) auto

lemma update_scan_inv:
  assumes "update_scan chk status newval til pre sl frm nm dn = Inr (l, frm', nm', dn', ex)"
    and "partition_from sz 0 (rev pre @ sl)" and "frm < til"
  shows "partition_from sz 0 l \<and> frm' < til"
  using assms
proof (induction sl arbitrary: pre frm nm dn)
  case Nil
  then show ?case by simp
next
  case (Cons fc sl)
  from update_body_partition [OF Cons.prems(2,3), of chk status newval nm dn] Cons.prems(1) Cons.IH
  show ?case
    by (cases "update_body chk status newval til pre fc sl frm nm dn") auto
qed

lemma update_scan_done:
  assumes "update_scan chk status newval til pre sl frm nm dn = Inr (l, frm', nm', dn', ex)"
    and "done_inv (rev pre @ sl) nm dn"
  shows "done_inv l nm' dn'"
  using assms
proof (induction sl arbitrary: pre frm nm dn)
  case Nil
  then show ?case by simp
next
  case (Cons fc sl)
  from update_body_done [OF Cons.prems(2), of chk status newval til frm] Cons.prems(1) Cons.IH
  show ?case
    by (cases "update_body chk status newval til pre fc sl frm nm dn") auto
qed

lemma update_again_inv:
  assumes "update_again k chk status newval til cl frm nm dn = Inr (l, nm', dn', ex)"
    and "partition_from sz 0 cl" and "frm < til"
  shows "partition_from sz 0 l"
  using assms
proof (induction k arbitrary: cl frm nm dn)
  case 0
  then show ?case by simp
next
  case (Suc k)
  show ?case
  proof (cases "update_scan chk status newval til [] cl frm nm dn")
    case (Inl e)
    with Suc.prems show ?thesis by simp
  next
    case (Inr r)
    obtain l1 frm1 nm1 dn1 ex1 where r: "r = (l1, frm1, nm1, dn1, ex1)" by (cases r) auto
    from update_scan_inv [OF Inr [unfolded r]] Suc.prems(2,3)
    have i: "partition_from sz 0 l1" "frm1 < til" by auto
    show ?thesis
    proof (cases "ex1 = Again")
      case True
      with Suc.prems(1) Inr r have "update_again k chk status newval til l1 frm1 nm1 dn1 = Inr (l, nm', dn', ex)"
        by simp
      from Suc.IH [OF this i] show ?thesis .
    next
      case False
      with Suc.prems(1) Inr r i show ?thesis by auto
    qed
  qed
qed

lemma update_again_done:
  assumes "update_again k chk status newval til cl frm nm dn = Inr (l, nm', dn', ex)"
    and "done_inv cl nm dn"
  shows "done_inv l nm' dn'"
  using assms
proof (induction k arbitrary: cl frm nm dn)
  case 0
  then show ?case by simp
next
  case (Suc k)
  show ?case
  proof (cases "update_scan chk status newval til [] cl frm nm dn")
    case (Inl e)
    with Suc.prems show ?thesis by simp
  next
    case (Inr r)
    obtain l1 frm1 nm1 dn1 ex1 where r: "r = (l1, frm1, nm1, dn1, ex1)" by (cases r) auto
    from update_scan_done [OF Inr [unfolded r]] Suc.prems(2)
    have i: "done_inv l1 nm1 dn1" by auto
    show ?thesis
    proof (cases "ex1 = Again")
      case True
      with Suc.prems(1) Inr r have "update_again k chk status newval til l1 frm1 nm1 dn1 = Inr (l, nm', dn', ex)"
        by simp
      from Suc.IH [OF this i] show ?thesis .
    next
      case False
      with Suc.prems(1) Inr r i show ?thesis by auto
    qed
  qed
qed

lemma merge_adjacent_partition:
  assumes "file_info_merge_adjacent P fi = Inr fi'" and "chunklist_partition fi"
  shows "chunklist_partition fi' \<and> fi_size fi' = fi_size fi \<and>
         fi_file_size_known fi' = fi_file_size_known fi"
proof -
  from assms(2) have "check_chunks True (fi_size fi) 0 (fi_chunklist fi)"
    by (simp add: chunklist_partition_def partition_is_check)
  from merge_chunks_check [OF this] obtain l d where
    m: "merge_chunks (fi_chunklist fi) = Inr (l, d)" "check_chunks True (fi_size fi) 0 l" by blast
  with assms(1) show ?thesis
    by (auto simp: file_info_merge_adjacent_def Let_def chunklist_partition_def partition_is_check
          split: if_splits)
qed

lemma merge_loop_nonempty: "merge_loop fc1 sl dn = Inr (l, d) \<Longrightarrow> l \<noteq> []"
  by (induction sl arbitrary: fc1 dn l d) (auto simp: Let_def split: if_splits sum.splits)

lemma merge_adjacent_done:
  assumes "file_info_merge_adjacent P fi = Inr fi'"
    and "fi_chunklist fi \<noteq> [] \<or> fi_done fi = done_bytes (fi_chunklist fi)"
  shows "fi_done fi' = done_bytes (fi_chunklist fi')"
proof -
  from assms(1) obtain l d where m: "merge_chunks (fi_chunklist fi) = Inr (l, d)"
    by (auto simp: file_info_merge_adjacent_def split: if_splits sum.splits)
  from merge_chunks_result [OF m] have r: "d = done_bytes (fi_chunklist fi)"
    "done_bytes l = done_bytes (fi_chunklist fi)" by auto
  have "l = [] \<Longrightarrow> fi_chunklist fi = []" using m
    by (cases "fi_chunklist fi") (auto simp: merge_chunks_def dest: merge_loop_nonempty)
  with assms m r show ?thesis
    by (auto simp: file_info_merge_adjacent_def Let_def split: if_splits)
qed


lemma update_body_nonempty:
  "case update_body chk status newval til pre fc sl frm nm dn of
     Continue pre' frm' nm' dn' \<Rightarrow> pre' \<noteq> []
   | Break l frm' nm' dn' ex \<Rightarrow> l \<noteq> []
   | Abort e \<Rightarrow> True"
  by (simp add: update_body_def Let_def split: list.split)

lemma update_scan_nonempty:
  assumes "update_scan chk status newval til pre sl frm nm dn = Inr (l, frm', nm', dn', ex)"
    and "rev pre @ sl \<noteq> []"
  shows "l \<noteq> []"
  using assms
proof (induction sl arbitrary: pre frm nm dn)
  case Nil
  then show ?case by auto
next
  case (Cons fc sl)
  from update_body_nonempty [of chk status newval til pre fc sl frm nm dn] Cons.prems(1) Cons.IH
  show ?case
    by (cases "update_body chk status newval til pre fc sl frm nm dn") auto
qed

lemma update_again_nonempty:
  assumes "update_again k chk status newval til cl frm nm dn = Inr (l, nm', dn', ex)"
    and "cl \<noteq> []"
  shows "l \<noteq> []"
  using assms
proof (induction k arbitrary: cl frm nm dn)
  case 0
  then show ?case by simp
next
  case (Suc k)
  show ?case
  proof (cases "update_scan chk status newval til [] cl frm nm dn")
    case (Inl e)
    with Suc.prems show ?thesis by simp
  next
    case (Inr r)
    obtain l1 frm1 nm1 dn1 ex1 where r: "r = (l1, frm1, nm1, dn1, ex1)" by (cases r) auto
    from update_scan_nonempty [OF Inr [unfolded r]] Suc.prems(2)
    have i: "l1 \<noteq> []" by auto
    show ?thesis
    proof (cases "ex1 = Again")
      case True
      with Suc.prems(1) Inr r have "update_again k chk status newval til l1 frm1 nm1 dn1 = Inr (l, nm', dn', ex)"
        by simp
      from Suc.IH [OF this i] show ?thesis .
    next
      case False
      with Suc.prems(1) Inr r i show ?thesis by auto
    qed
  qed
qed

text \<open>What a successful update is made of.\<close>

lemma file_info_update_known:
  assumes "file_info_update P d frm til status fi = Inr fi'" and "fi_file_size_known fi"
  shows "\<exists>l nm dn ex. frm < til \<and>
    update_again 10 (\<lambda>l. file_info_check_chunklist P (fi\<lparr>fi_chunklist := l\<rparr>) True)
        status (if status = DL_CHUNK_EMPTY then None else Some d) til (fi_chunklist fi) frm
        (status \<noteq> DL_CHUNK_DONE) (fi_done fi) = Inr (l, nm, dn, ex) \<and>
    (nm \<longrightarrow> file_info_merge_adjacent P (fi\<lparr>fi_chunklist := l, fi_done := dn\<rparr>) = Inr fi') \<and>
    (\<not> nm \<longrightarrow> fi' = fi\<lparr>fi_chunklist := l, fi_done := dn\<rparr>)"
  using assms
  by (auto simp: file_info_update_def Let_def split: if_splits sum.splits prod.splits)

lemma update_partition:
  assumes "file_info_update P d frm til status fi = Inr fi'" and "chunklist_partition fi"
  shows "chunklist_partition fi' \<and> fi_size fi' = fi_size fi \<and>
         fi_file_size_known fi' = fi_file_size_known fi"
proof (cases "fi_file_size_known fi")
  case False
  with assms show ?thesis
    by (auto simp: file_info_update_def Let_def chunklist_partition_def split: if_splits)
next
  case True
  from assms(1) True obtain l nm dn ex where u: "frm < til"
    "update_again 10 (\<lambda>l. file_info_check_chunklist P (fi\<lparr>fi_chunklist := l\<rparr>) True)
        status (if status = DL_CHUNK_EMPTY then None else Some d) til (fi_chunklist fi) frm
        (status \<noteq> DL_CHUNK_DONE) (fi_done fi) = Inr (l, nm, dn, ex)"
    "nm \<Longrightarrow> file_info_merge_adjacent P (fi\<lparr>fi_chunklist := l, fi_done := dn\<rparr>) = Inr fi'"
    "\<not> nm \<Longrightarrow> fi' = fi\<lparr>fi_chunklist := l, fi_done := dn\<rparr>"
    using file_info_update_known by blast
  from update_again_inv [OF u(2) _ u(1)] assms(2)
  have p: "chunklist_partition (fi\<lparr>fi_chunklist := l, fi_done := dn\<rparr>)"
    by (simp add: chunklist_partition_def)
  show ?thesis
  proof (cases nm)
    case True
    from merge_adjacent_partition [OF u(3) [OF True] p] show ?thesis by simp
  next
    case False
    with u(4) p show ?thesis by simp
  qed
qed

lemma update_done:
  assumes "file_info_update P d frm til status fi = Inr fi'" and "fi_chunklist fi \<noteq> []"
    and "fi_done fi = done_bytes (fi_chunklist fi)"
  shows "fi_done fi' = done_bytes (fi_chunklist fi') \<and> fi_chunklist fi' \<noteq> []"
proof -
  from assms(1,2) have known: "fi_file_size_known fi"
    by (auto simp: file_info_update_def Let_def split: if_splits)
  from assms(1) known obtain l nm dn ex where u: "frm < til"
    "update_again 10 (\<lambda>l. file_info_check_chunklist P (fi\<lparr>fi_chunklist := l\<rparr>) True)
        status (if status = DL_CHUNK_EMPTY then None else Some d) til (fi_chunklist fi) frm
        (status \<noteq> DL_CHUNK_DONE) (fi_done fi) = Inr (l, nm, dn, ex)"
    "nm \<Longrightarrow> file_info_merge_adjacent P (fi\<lparr>fi_chunklist := l, fi_done := dn\<rparr>) = Inr fi'"
    "\<not> nm \<Longrightarrow> fi' = fi\<lparr>fi_chunklist := l, fi_done := dn\<rparr>"
    using file_info_update_known by blast
  from update_again_done [OF u(2)] assms(3) have inv: "done_inv l nm dn"
    by (simp add: done_inv_def)
  from update_again_nonempty [OF u(2) assms(2)] have ne: "l \<noteq> []" .
  show ?thesis
  proof (cases nm)
    case True
    from merge_adjacent_done [OF u(3) [OF True]] ne
    have 1: "fi_done fi' = done_bytes (fi_chunklist fi')" by simp
    from u(3) [OF True] ne have "fi_chunklist fi' \<noteq> []"
      by (auto simp: file_info_merge_adjacent_def Let_def merge_chunks_def
            split: if_splits sum.splits list.splits dest: merge_loop_nonempty)
    with 1 show ?thesis by simp
  next
    case False
    with u(4) inv ne show ?thesis by (simp add: done_inv_def)
  qed
qed

section \<open>The coverage invariant under the other operations\<close>

lemma word_pred_gt: "(x::64 word) - 1 > off \<Longrightarrow> a < x \<Longrightarrow> off < x"
  by unat_arith

lemma partition_geometry:
  "geometry l = geometry l' \<Longrightarrow> partition_from sz a l = partition_from sz a l'"
proof (induction l arbitrary: l' a)
  case Nil
  then show ?case by (simp add: geometry_def)
next
  case (Cons fc l)
  then obtain fc' l2 where l': "l' = fc' # l2" by (cases l') (auto simp: geometry_def)
  with Cons.prems have "geometry l = geometry l2" "fc_from fc = fc_from fc'" "fc_to fc = fc_to fc'"
    by (auto simp: geometry_def)
  with Cons.IH [of l2] l' show ?case by simp
qed

lemma clear_loop_geometry:
  "clear_loop D d l busy pipelined = Inr (l', b, p) \<Longrightarrow> geometry l' = geometry l"
proof (induction l arbitrary: busy pipelined l' b p)
  case Nil
  then show ?case by (simp add: geometry_def)
next
  case (Cons fc l)
  then show ?case 
    by (auto simp: geometry_def Let_def split: if_splits sum.splits option.splits)
qed

lemma reset_chunks_geometry: "reset_chunks l = Inr l' \<Longrightarrow> geometry l' = geometry l"
  by (induction l arbitrary: l') (auto simp: geometry_def split: if_splits sum.splits)

lemma clear_download_partition:
  assumes "file_info_clear_download P D d lc fi = Inr fi'" and "chunklist_partition fi"
  shows "chunklist_partition fi' \<and> fi_size fi' = fi_size fi \<and>
         fi_file_size_known fi' = fi_file_size_known fi"
proof -
  from assms(1) obtain l b p where
    c: "clear_loop D d (fi_chunklist fi) 0 0 = Inr (l, b, p)"
    and m: "file_info_merge_adjacent P (fi\<lparr>fi_chunklist := l\<rparr>) = Inr fi'"
    by (auto simp: file_info_clear_download_def split: if_splits sum.splits prod.splits)
  from clear_loop_geometry [OF c] assms(2) have "chunklist_partition (fi\<lparr>fi_chunklist := l\<rparr>)"
    by (simp add: chunklist_partition_def partition_geometry [of l "fi_chunklist fi"])
  from merge_adjacent_partition [OF m this] show ?thesis by simp
qed

lemma reset_restart_partition:
  assumes "reset_restart n P D fi = Inr (D', fi')" and "chunklist_partition fi"
  shows "chunklist_partition fi' \<and> fi_size fi' = fi_size fi \<and>
         fi_file_size_known fi' = fi_file_size_known fi"
  using assms
proof (induction n arbitrary: D fi)
  case 0
  then show ?case by simp
next
  case (Suc n)
  show ?case
  proof (cases "running_owner D (fi_chunklist fi)")
    case None
    with Suc.prems show ?thesis by simp
  next
    case (Some d)
    with Suc.prems(1) obtain D1 fi1 where q: "download_queue P D d fi = Inr (D1, fi1)"
      and r: "reset_restart n P D1 fi1 = Inr (D', fi')"
      by (auto split: sum.splits)
    from q have "file_info_clear_download P D d True fi = Inr fi1"
      by (auto simp: download_queue_def split: sum.splits)
    from clear_download_partition [OF this Suc.prems(2)] Suc.IH [OF r] show ?thesis by simp
  qed
qed

lemma reset_partition:
  assumes "file_info_reset P D fi = Inr (D', fi')" and "chunklist_partition fi"
  shows "chunklist_partition fi' \<and> fi_size fi' = fi_size fi \<and>
         fi_file_size_known fi' = fi_file_size_known fi"
proof -
  from assms(1) obtain fi1 l where
    r: "reset_restart (Suc (length (fi_chunklist fi))) P D (fi\<lparr>fi_cha1 := None\<rparr>) = Inr (D', fi1)"
    and c: "reset_chunks (fi_chunklist fi1) = Inr l"
    and m: "file_info_merge_adjacent P (fi1\<lparr>fi_chunklist := l\<rparr>) = Inr fi'"
    by (auto simp: file_info_reset_def split: if_splits sum.splits prod.splits)
  from assms(2) have "chunklist_partition (fi\<lparr>fi_cha1 := None\<rparr>)"
    by (simp add: chunklist_partition_def)
  from reset_restart_partition [OF r this]
  have 1: "chunklist_partition fi1" "fi_size fi1 = fi_size fi"
    "fi_file_size_known fi1 = fi_file_size_known fi" by auto
  from reset_chunks_geometry [OF c] 1(1) have "chunklist_partition (fi1\<lparr>fi_chunklist := l\<rparr>)"
    by (simp add: chunklist_partition_def partition_geometry [of l "fi_chunklist fi1"])
  from merge_adjacent_partition [OF m this] 1 show ?thesis by simp
qed

lemma clone_split_partition:
  "clone_split_pass off l = Inr (l', c) \<Longrightarrow> partition_from sz a l \<Longrightarrow> partition_from sz a l'"
proof (induction l arbitrary: a l' c)
  case Nil
  then show ?case by simp
next
  case (Cons fc l)
  show ?case
  proof (cases "fc_status fc = DL_CHUNK_EMPTY \<and> fc_to fc - 1 > off")
    case True
    with Cons.prems(2) have "off < fc_to fc" by (auto intro: word_pred_gt)
    with True Cons.prems show ?thesis by (auto simp: Let_def split: if_splits)
  next
    case False
    with Cons.prems Cons.IH show ?thesis by (auto split: sum.splits)
  qed
qed

lemma clone_cut_partition:
  assumes "clone_cut P off fi = Inr (fi', c)" and "chunklist_partition fi"
  shows "chunklist_partition fi' \<and> fi_size fi' = fi_size fi \<and>
         fi_file_size_known fi' = fi_file_size_known fi \<and> fi_done fi' = fi_done fi \<and>
         fi_lifecount fi' = fi_lifecount fi"
proof (cases "clone_first_pass off (fi_chunklist fi)")
  case (Some c1)
  with assms show ?thesis by (simp add: clone_cut_def)
next
  case None
  with assms(1) obtain l where sp: "clone_split_pass off (fi_chunklist fi) = Inr (l, c)"
    and fi': "fi' = fi\<lparr>fi_chunklist := l\<rparr>"
    by (auto simp: clone_cut_def split: if_splits sum.splits)
  from clone_split_partition [OF sp] assms(2) have "partition_from (fi_size fi) 0 l"
    by (simp add: chunklist_partition_def)
  with fi' show ?thesis by (simp add: chunklist_partition_def)
qed

lemma list_clone_shift_partition:
  assumes "list_clone_shift P E fi = Inr (ck, fi')" and "chunklist_partition fi"
  shows "chunklist_partition fi' \<and> fi_size fi' = fi_size fi \<and>
         fi_file_size_known fi' = fi_file_size_known fi \<and> fi_done fi' = fi_done fi \<and>
         fi_lifecount fi' = fi_lifecount fi"
proof (cases "\<exists>fi1 c. clone_cut P (clone_offset P E fi) fi = Inr (fi1, c) \<and> fi' = fi1")
  case True
  with assms(2) show ?thesis by (auto dest: clone_cut_partition)
next
  case False
  with assms(1) have "fi' = fi"
    by (simp add: list_clone_shift_def split: if_splits sum.splits prod.splits option.splits
          list.splits)
  with assms(2) show ?thesis by simp
qed

lemma reserve_partition:
  assumes "file_info_reserve P D d frm til chunk fi = Inr fi'" and "chunklist_partition fi"
  shows "chunklist_partition fi' \<and> fi_size fi' = fi_size fi \<and>
         fi_file_size_known fi' = fi_file_size_known fi"
proof -
  from assms(1) have "file_info_update P d frm til DL_CHUNK_BUSY fi = Inr fi'"
    by (auto simp: file_info_reserve_def split: if_splits sum.splits option.splits prod.splits)
  from update_partition [OF this assms(2)] show ?thesis .
qed

lemma find_hole_select_partition:
  assumes "find_hole_select P D d cs ck fi = Inr (fi', st, rg)" and "chunklist_partition fi"
  shows "chunklist_partition fi' \<and> fi_size fi' = fi_size fi \<and>
         fi_file_size_known fi' = fi_file_size_known fi"
  using assms
  by (auto simp: find_hole_select_def Let_def
        split: if_splits sum.splits prod.splits option.splits dest: reserve_partition)

lemma check_file_partition:
  assumes "(if fi_done fi \<noteq> 0 then fi_check_file P E D fi else Inr (D, fi)) = Inr (D1, fi1)"
    and "chunklist_partition fi"
  shows "chunklist_partition fi1 \<and> fi_size fi1 = fi_size fi \<and>
         fi_file_size_known fi1 = fi_file_size_known fi"
  using assms by (auto simp: fi_check_file_def split: if_splits dest: reset_partition)

lemma clone_shift_partition:
  assumes "(if pfsp_server P then list_clone_shift P E fi else Inr (fi_chunklist fi, fi)) = Inr (ck, fi')"
    and "chunklist_partition fi"
  shows "chunklist_partition fi' \<and> fi_size fi' = fi_size fi \<and>
         fi_file_size_known fi' = fi_file_size_known fi"
  using assms by (auto split: if_splits dest: list_clone_shift_partition)

lemma find_hole_partition:
  assumes "file_info_find_hole P E D d fi = Inr (D', fi', st, rg)" and "chunklist_partition fi"
  shows "chunklist_partition fi' \<and> fi_size fi' = fi_size fi \<and>
         fi_file_size_known fi' = fi_file_size_known fi"
proof (cases "fi_done fi \<noteq> 0 \<and> fi_done fi = fi_size fi")
  case True
  with assms show ?thesis
    by (auto simp: file_info_find_hole_def split: if_splits sum.splits)
next
  case False
  from assms(1) False obtain D1 fi1 where
    cf: "(if fi_done fi \<noteq> 0 then fi_check_file P E D fi else Inr (D, fi)) = Inr (D1, fi1)"
    by (simp add: file_info_find_hole_def split: if_splits sum.splits prod.splits) 
  from assms(1) False cf obtain ck fi2 where
    cs: "(if pfsp_server P then list_clone_shift P E fi1 else Inr (fi_chunklist fi1, fi1))
           = Inr (ck, fi2)"
    by (simp add: file_info_find_hole_def split: if_splits sum.splits prod.splits)
  from assms(1) False cf cs have
    sel: "find_hole_select P D1 d (find_hole_chunksize P E D1 d fi1) ck fi2 = Inr (fi', st, rg)"
    by (simp add: file_info_find_hole_def split: if_splits sum.splits prod.splits)
  from check_file_partition [OF cf assms(2)] clone_shift_partition [OF cs]
    find_hole_select_partition [OF sel]
  show ?thesis by simp
qed

section \<open>Sequences of operations\<close>

lemma apply_op_partition:
  assumes "apply_op P op (D, fi) = Inr (D', fi')" and "chunklist_partition fi"
  shows "chunklist_partition fi' \<and> fi_size fi' = fi_size fi \<and>
         fi_file_size_known fi' = fi_file_size_known fi"
proof (cases op)
  case (Op_update d frm til status)
  with assms show ?thesis by (auto split: sum.splits dest: update_partition)
next
  case Op_merge_adjacent
  with assms show ?thesis by (auto split: sum.splits dest: merge_adjacent_partition)
next
  case (Op_find_hole E d)
  with assms show ?thesis by (auto split: sum.splits prod.splits dest: find_hole_partition)
next
  case (Op_clear_download d lc)
  with assms show ?thesis by (auto split: sum.splits dest: clear_download_partition)
next
  case Op_reset
  with assms show ?thesis by (auto dest: reset_partition)
qed

lemma apply_ops_partition:
  assumes "chunklist_partition fi" and "run_ops P ops (D, fi) = Inr (D', fi')"
  shows "chunklist_partition fi' \<and> fi_size fi' = fi_size fi \<and>
         fi_file_size_known fi' = fi_file_size_known fi"
  using assms
proof (induction ops arbitrary: D fi)
  case Nil
  then show ?case by simp
next
  case (Cons op ops)
  from Cons.prems(2) obtain D1 fi1 where a: "apply_op P op (D, fi) = Inr (D1, fi1)"
    and r: "run_ops P ops (D1, fi1) = Inr (D', fi')"
    by (auto split: sum.splits)
  from apply_op_partition [OF a Cons.prems(1)] Cons.IH [OF _ r]
  show ?case by simp
qed




lemma done_total_unat:
  "partition_from sz a l \<Longrightarrow>
   unat a + done_total l \<le> unat (list_end a l) \<and> unat (done_bytes l) = done_total l"
proof (induction l arbitrary: a)
  case Nil
  then show ?case by simp
next
  case (Cons fc sl)
  from Cons.prems have lt: "fc_from fc < fc_to fc" and a: "fc_from fc = a"
    and p: "partition_from sz (fc_to fc) sl" by auto
  from Cons.IH [OF p] have ih: "unat (fc_to fc) + done_total sl \<le> unat (list_end (fc_to fc) sl)"
    "unat (done_bytes sl) = done_total sl" by auto
  from lt have le: "unat (fc_from fc) \<le> unat (fc_to fc)" by (simp add: word_less_nat_alt)
  from lt have sub: "unat (fc_to fc - fc_from fc) = unat (fc_to fc) - unat (fc_from fc)"
    by (simp add: unat_sub word_le_nat_alt word_less_nat_alt)
  have bound: "unat (list_end (fc_to fc) sl) < 2 ^ 64"
    using unsigned_less [of "list_end (fc_to fc) sl", where 'a = nat] by simp
  have "unat (fc_to fc - fc_from fc + done_bytes sl) = unat (fc_to fc - fc_from fc) + unat (done_bytes sl)"
    using sub ih le bound by (subst unat_add_lem [THEN iffD1]) auto
  with sub ih le a show ?case by auto
qed

lemma apply_op_done:
  assumes "apply_op P op (D, fi) = Inr (D', fi')" and "is_update_or_merge op"
    and "fi_chunklist fi \<noteq> []" and "fi_done fi = done_bytes (fi_chunklist fi)"
  shows "fi_chunklist fi' \<noteq> [] \<and> fi_done fi' = done_bytes (fi_chunklist fi')"
proof (cases op)
  case (Op_update d frm til status)
  with assms show ?thesis by (auto split: sum.splits dest: update_done)
next
  case Op_merge_adjacent
  with assms(1) have m: "file_info_merge_adjacent P fi = Inr fi'" by (auto split: sum.splits)
  from m assms(3) have "fi_chunklist fi' \<noteq> []"
    by (auto simp: file_info_merge_adjacent_def Let_def merge_chunks_def
          split: if_splits sum.splits list.splits dest: merge_loop_nonempty)
  with merge_adjacent_done [OF m] assms(3) show ?thesis by simp
qed (use assms in auto)


text \<open>
  Claim C2.  From a state with a non-empty chunk list whose cached counter \<open>fi->done\<close>
  equals the sum of the lengths of the Done chunks, any sequence of \<open>file_info_update\<close>
  and \<open>file_info_merge_adjacent\<close> calls that runs to its end leaves the counter equal to
  that sum: as computed in 64-bit arithmetic and, when the initial list is a partition,
  as a sum of natural numbers.  Bytes marked Done twice are counted once.
\<close>

theorem done_consistency:
  assumes "fi_chunklist fi \<noteq> []" and "fi_done fi = done_bytes (fi_chunklist fi)"
    and "\<forall>op \<in> set ops. is_update_or_merge op"
    and "run_ops P ops (D, fi) = Inr (D', fi')"
  shows "fi_done fi' = done_bytes (fi_chunklist fi') \<and>
         (chunklist_partition fi \<longrightarrow> unat (fi_done fi') = done_total (fi_chunklist fi'))"
proof -
  have "fi_chunklist fi' \<noteq> [] \<and> fi_done fi' = done_bytes (fi_chunklist fi')"
    using assms
  proof (induction ops arbitrary: D fi)
    case Nil
    then show ?case by simp
  next
    case (Cons op ops)
    from Cons.prems(4) obtain D1 fi1 where a: "apply_op P op (D, fi) = Inr (D1, fi1)"
      and r: "run_ops P ops (D1, fi1) = Inr (D', fi')"
      by (auto split: sum.splits)
    from Cons.prems(3) have u: "is_update_or_merge op" "\<forall>op \<in> set ops. is_update_or_merge op" by auto
    from apply_op_done [OF a u(1) Cons.prems(1,2)] Cons.IH [OF _ _ u(2) r]
    show ?case by simp
  qed
  moreover have "chunklist_partition fi'" if "chunklist_partition fi"
    using apply_ops_partition [OF that assms(4)] by simp
  ultimately show ?thesis
    using done_total_unat [of "fi_size fi'" 0 "fi_chunklist fi'"]
    by (auto simp: chunklist_partition_def)
qed


theorem done_consistency_witness:
  "fi_done (fi_example 1000 0 [mk_chunk 0 1000 None DL_CHUNK_EMPTY])
     = done_bytes (fi_chunklist (fi_example 1000 0 [mk_chunk 0 1000 None DL_CHUNK_EMPTY])) \<and>
   chunklist_partition (fi_example 1000 0 [mk_chunk 0 1000 None DL_CHUNK_EMPTY]) \<and>
   (\<exists>D' fi'. run_ops props_example
        [Op_update 1 0 300 DL_CHUNK_DONE, Op_update 2 100 200 DL_CHUNK_DONE,
         Op_update 1 300 600 DL_CHUNK_DONE, Op_merge_adjacent]
        (downloads_example, fi_example 1000 0 [mk_chunk 0 1000 None DL_CHUNK_EMPTY]) = Inr (D', fi')
      \<and> fi_done fi' = 600 \<and> fi_done fi' = done_bytes (fi_chunklist fi')
      \<and> unat (fi_done fi') = done_total (fi_chunklist fi'))"
proof -
  let ?fi = "fi_example 1000 0 [mk_chunk 0 1000 None DL_CHUNK_EMPTY]"
  let ?ops = "[Op_update 1 0 300 DL_CHUNK_DONE, Op_update 2 100 200 DL_CHUNK_DONE,
         Op_update 1 300 600 DL_CHUNK_DONE, Op_merge_adjacent]"
  let ?run = "run_ops props_example ?ops (downloads_example, ?fi)"
  have p: "chunklist_partition ?fi"
    by (simp add: chunklist_partition_def fi_example_def mk_chunk_def)
  have ne: "fi_chunklist ?fi \<noteq> []" by (simp add: fi_example_def)
  have d0: "fi_done ?fi = done_bytes (fi_chunklist ?fi)"
    by (simp add: fi_example_def mk_chunk_def)
  have u: "\<forall>op \<in> set ?ops. is_update_or_merge op" by simp
  have "case ?run of Inl e \<Rightarrow> False | Inr (D', fi') \<Rightarrow> fi_done fi' = 600" by code_simp
  then obtain D' fi' where r: "?run = Inr (D', fi')" and d: "fi_done fi' = 600"
    by (cases ?run) auto
  from done_consistency [OF ne d0 u r] p r d d0 show ?thesis
    by auto
qed

section \<open>The allocator never steals from the requester\<close>

lemma partition_bounds:
  "partition_from sz a l \<Longrightarrow> c \<in> set l \<Longrightarrow> a \<le> fc_from c \<and> fc_from c < fc_to c"
proof (induction l arbitrary: a)
  case Nil
  then show ?case by simp
next
  case (Cons fc l)
  show ?case
  proof (cases "c = fc")
    case True
    with Cons.prems show ?thesis by auto
  next
    case False
    with Cons.prems have "c \<in> set l" "partition_from sz (fc_to fc) l" "a < fc_to fc" by auto
    with Cons.IH [of "fc_to fc"] show ?thesis by auto
  qed
qed


















section \<open>Stealing from a single Busy chunk\<close>













section \<open>Overwriting the inside of a Busy chunk\<close>

lemma update_scan_skip:
  "\<forall>c \<in> set xs. fc_to c \<le> frm \<Longrightarrow>
   update_scan chk st nv til pre (xs @ sl) frm nm dn
     = update_scan chk st nv til (rev xs @ pre) sl frm nm dn"
  by (induction xs arbitrary: pre) (auto simp: update_body_def)

lemma partition_prefix_le:
  "partition_from sz a (xs @ fc # ys) \<Longrightarrow> c \<in> set xs \<Longrightarrow> fc_to c \<le> fc_from fc"
proof (induction xs arbitrary: a)
  case Nil
  then show ?case by simp
next
  case (Cons x xs)
  from Cons.prems(1) have p: "partition_from sz (fc_to x) (xs @ fc # ys)" by simp
  show ?case
  proof (cases "c = x")
    case True
    from partition_bounds [OF p, of fc] True show ?thesis by simp
  next
    case False
    with Cons.prems(2) Cons.IH [OF p] show ?thesis by simp
  qed
qed

lemma update_body_inside_busy:
  assumes "fc_status fc = DL_CHUNK_BUSY" "fc_from fc < frm" "til < fc_to fc" "frm < til"
  shows "update_body chk st nv til pre fc sl frm nm dn =
     (let l = rev pre @ fc\<lparr>fc_to := frm\<rparr>
                # \<lparr>fc_from = frm, fc_to = til, fc_download = nv, fc_status = st\<rparr>
                # \<lparr>fc_from = til, fc_to = fc_to fc, fc_download = None,
                     fc_status = DL_CHUNK_EMPTY\<rparr> # sl
      in if chk l then Break l frm nm (if st = DL_CHUNK_DONE then dn + (til - frm) else dn) Found
         else Abort Assertion_failed)"
proof -
  from assms have g: "\<not> fc_to fc \<le> frm" "\<not> fc_from fc \<ge> til" "fc_from fc \<noteq> frm"
    "fc_to fc \<ge> til" "fc_to fc > til" by auto
  show ?thesis using g assms(1,2) by (simp add: update_body_def Let_def)
qed

lemma update_again_inside_busy:
  assumes "partition_from sz 0 (xs @ fc # ys)"
    and "fc_status fc = DL_CHUNK_BUSY" "fc_from fc < frm" "til < fc_to fc" "frm < til"
    and "update_again (Suc k) chk st nv til (xs @ fc # ys) frm nm dn = Inr (l, nm', dn', ex)"
  shows "l = xs @ fc\<lparr>fc_to := frm\<rparr>
                # \<lparr>fc_from = frm, fc_to = til, fc_download = nv, fc_status = st\<rparr>
                # \<lparr>fc_from = til, fc_to = fc_to fc, fc_download = None,
                     fc_status = DL_CHUNK_EMPTY\<rparr> # ys \<and> nm' = nm"
proof -
  have "\<forall>c \<in> set xs. fc_to c \<le> frm"
    using partition_prefix_le [OF assms(1)] assms(3) by fastforce
  from update_scan_skip [OF this, of chk st nv til "[]" "fc # ys" nm dn]
  have "update_scan chk st nv til [] (xs @ fc # ys) frm nm dn
      = update_scan chk st nv til (rev xs) (fc # ys) frm nm dn" by simp
  with assms(6) update_body_inside_busy [OF assms(2-5), of chk st nv "rev xs" ys nm dn]
  show ?thesis by (auto simp: Let_def split: if_splits)
qed

lemma merge_loop_after_busy:
  assumes "fc_status q = DL_CHUNK_BUSY"
  shows "merge_loop q (z # zs) dn =
     (if fc_to q \<noteq> fc_from z then Inl Assertion_failed
      else case merge_loop (visit_chunk z) zs (visit_done z dn) of
             Inl e \<Rightarrow> Inl e
           | Inr (l2, d2) \<Rightarrow> Inr (q # l2, d2))"
  using assms by (auto simp: Let_def)

lemma merge_loop_split_busy:
  assumes "fc_status q = DL_CHUNK_BUSY"
    and "merge_loop fc1 (xs @ q # z # zs) dn = Inr (l, d)"
  shows "\<exists>l1 l2 d1. l = l1 @ l2 \<and> merge_loop (visit_chunk z) zs (visit_done z d1) = Inr (l2, d)"
  using assms(2)
proof (induction xs arbitrary: fc1 dn l)
  case Nil
  then have cq: "fc_to fc1 = fc_from q" by (auto simp: Let_def split: if_splits)
  with Nil assms(1) obtain l' where
    m: "merge_loop q (z # zs) dn = Inr (l', d)" by (auto simp: Let_def visit_chunk_def visit_done_def split: sum.splits)
  from m [unfolded merge_loop_after_busy [OF assms(1)]]
  obtain l2 where "merge_loop (visit_chunk z) zs (visit_done z dn) = Inr (l2, d)"
    "l' = q # l2"
    by (auto split: if_splits sum.splits)
  moreover from Nil m assms(1) cq have "l = fc1 # l'"
    by (auto simp: Let_def visit_chunk_def visit_done_def split: sum.splits)
  ultimately show ?case by (intro exI [of _ "[fc1, q]"] exI [of _ l2] exI [of _ dn]) simp
next
  case (Cons x xs)
  from Cons.prems have c: "fc_to fc1 = fc_from x" by (auto simp: Let_def split: if_splits)
  show ?case
  proof (cases "fc_status fc1 = fc_status x \<and> fc_status x \<noteq> DL_CHUNK_BUSY")
    case True
    with Cons.prems c have "merge_loop (fc1\<lparr>fc_to := fc_to x\<rparr>) (xs @ q # z # zs) (visit_done x dn) = Inr (l, d)"
      by (simp add: Let_def)
    from Cons.IH [OF this] show ?thesis .
  next
    case False
    with Cons.prems c obtain l' where
      "merge_loop (visit_chunk x) (xs @ q # z # zs) (visit_done x dn) = Inr (l', d)" "l = fc1 # l'"
      by (auto simp: Let_def split: sum.splits)
    from Cons.IH [OF this(1)] this(2) show ?thesis by (metis append_Cons)
  qed
qed

lemma merge_chunks_split_busy:
  assumes "fc_status q = DL_CHUNK_BUSY"
    and "merge_chunks (xs @ q # z # zs) = Inr (l, d)"
  shows "\<exists>l1 l2 d1. l = l1 @ l2 \<and> merge_loop (visit_chunk z) zs (visit_done z d1) = Inr (l2, d)"
proof (cases xs)
  case Nil
  with assms have m: "merge_loop q (z # zs) 0 = Inr (l, d)"
    by (simp add: merge_chunks_def visit_chunk_def visit_done_def)
  from m [unfolded merge_loop_after_busy [OF assms(1)]]
  obtain l2 where "merge_loop (visit_chunk z) zs (visit_done z 0) = Inr (l2, d)"
    "l = q # l2"
    by (auto split: if_splits sum.splits)
  then show ?thesis by (intro exI [of _ "[q]"] exI [of _ l2] exI [of _ 0]) simp
next
  case (Cons x xs')
  with assms(2) have "merge_loop (visit_chunk x) (xs' @ q # z # zs) (visit_done x 0) = Inr (l, d)"
    by (simp add: merge_chunks_def)
  from merge_loop_split_busy [OF assms(1) this] show ?thesis .
qed

lemma merge_loop_head:
  "merge_loop fc1 sl dn = Inr (l, d) \<Longrightarrow> partition_from sz a (fc1 # sl) \<Longrightarrow>
   \<exists>h t. l = h # t \<and> fc_from h = fc_from fc1 \<and> fc_status h = fc_status fc1 \<and>
         fc_download h = fc_download fc1 \<and> fc_to fc1 \<le> fc_to h"
proof (induction sl arbitrary: fc1 dn l a)
  case Nil
  then show ?case by auto
next
  case (Cons fc sl)
  from Cons.prems(2) have lt: "fc_to fc1 = fc_from fc" "fc_from fc < fc_to fc"
    "fc_from fc1 < fc_to fc1" "fc_to fc \<le> sz" "partition_from sz (fc_to fc) sl" "fc_from fc1 = a"
    by auto
  show ?case
  proof (cases "fc_status fc1 = fc_status fc \<and> fc_status fc \<noteq> DL_CHUNK_BUSY")
    case True
    with Cons.prems lt have m: "merge_loop (fc1\<lparr>fc_to := fc_to fc\<rparr>) sl (visit_done fc dn) = Inr (l, d)"
      by (simp add: Let_def)
    from lt have "partition_from sz a (fc1\<lparr>fc_to := fc_to fc\<rparr> # sl)" by auto
    from Cons.IH [OF m this] lt show ?thesis by auto
  next
    case False
    with Cons.prems lt show ?thesis by (auto simp: Let_def split: sum.splits)
  qed
qed


lemma merge_adjacent_chunks:
  "file_info_merge_adjacent P fi = Inr fi' \<Longrightarrow>
   \<exists>d. merge_chunks (fi_chunklist fi) = Inr (fi_chunklist fi', d)"
  by (auto simp: file_info_merge_adjacent_def Let_def split: if_splits sum.splits)

lemma update_status_valid:
  "file_info_update P d frm til status fi = Inr fi' \<Longrightarrow>
   status = DL_CHUNK_DONE \<or> status = DL_CHUNK_BUSY \<or> status = DL_CHUNK_EMPTY"
  by (auto simp: file_info_update_def split: if_splits)

text \<open>
  Claim C9.  When \<open>file_info_update\<close> marks a range \<open>[frm, til)\<close> that lies strictly
  inside a Busy chunk \<open>fc\<close> (\<open>fc_from fc < frm\<close> and \<open>til < fc_to fc\<close>), the resulting
  list has an Empty chunk without owner that covers the remainder \<open>[til, fc_to fc)\<close>, and
  its Busy chunks are those of the chunks before \<open>fc\<close>, the lower part
  \<open>[fc_from fc, frm)\<close> of \<open>fc\<close> under its owner, the new chunk when it is marked Busy,
  and those of the chunks after \<open>fc\<close>: the owner of \<open>fc\<close> keeps one Busy chunk of its
  reservation, not two.
\<close>

theorem stolen_remainder_released:
  assumes "chunklist_partition fi"
    and "fi_chunklist fi = xs @ fc # ys"
    and "fc_status fc = DL_CHUNK_BUSY" and "fc_from fc < frm" and "til < fc_to fc"
    and "file_info_update P d frm til status fi = Inr fi'"
  shows "(\<exists>c \<in> set (fi_chunklist fi'). fc_from c \<le> til \<and> fc_to fc \<le> fc_to c \<and>
            fc_status c = DL_CHUNK_EMPTY \<and> fc_download c = None) \<and>
         busy_chunks (fi_chunklist fi') =
           busy_chunks xs @ fc\<lparr>fc_to := frm\<rparr> #
             (if status = DL_CHUNK_BUSY
              then [\<lparr>fc_from = frm, fc_to = til, fc_download = Some d, fc_status = DL_CHUNK_BUSY\<rparr>]
              else []) @ busy_chunks ys"
proof -
  define nv where "nv = (if status = DL_CHUNK_EMPTY then None else Some d)"
  define q where "q = fc\<lparr>fc_to := frm\<rparr>"
  define new where "new = \<lparr>fc_from = frm, fc_to = til, fc_download = nv, fc_status = status\<rparr>"
  define rem where "rem = \<lparr>fc_from = til, fc_to = fc_to fc, fc_download = None,
                     fc_status = DL_CHUNK_EMPTY\<rparr>"
  define l0 where "l0 = xs @ q # new # rem # ys"
  from assms(2,6) have known: "fi_file_size_known fi"
    by (auto simp: file_info_update_def Let_def split: if_splits)
  from file_info_update_known [OF assms(6) known] obtain l nm dn ex where u: "frm < til"
    "update_again 10 (\<lambda>l. file_info_check_chunklist P (fi\<lparr>fi_chunklist := l\<rparr>) True)
        status nv til (fi_chunklist fi) frm (status \<noteq> DL_CHUNK_DONE) (fi_done fi)
       = Inr (l, nm, dn, ex)"
    "nm \<Longrightarrow> file_info_merge_adjacent P (fi\<lparr>fi_chunklist := l, fi_done := dn\<rparr>) = Inr fi'"
    "\<not> nm \<Longrightarrow> fi' = fi\<lparr>fi_chunklist := l, fi_done := dn\<rparr>"
    unfolding nv_def by blast
  have p: "partition_from (fi_size fi) 0 (xs @ fc # ys)"
    using assms(1,2) by (simp add: chunklist_partition_def)
  have ten: "(10::nat) = Suc 9" by simp
  from update_again_inside_busy [OF p assms(3,4,5) u(1) u(2) [unfolded assms(2) ten]]
  have l: "l = l0" and nm: "nm = (status \<noteq> DL_CHUNK_DONE)"
    by (simp_all add: l0_def q_def new_def rem_def)
  from update_again_inv [OF u(2) _ u(1)] assms(1) l
  have p0: "partition_from (fi_size fi) 0 l0" by (simp add: chunklist_partition_def)
  have q: "fc_status q = DL_CHUNK_BUSY" using assms(3) by (simp add: q_def)
  have b0: "busy_chunks l0 = busy_chunks xs @ fc\<lparr>fc_to := frm\<rparr> #
             (if status = DL_CHUNK_BUSY
              then [\<lparr>fc_from = frm, fc_to = til, fc_download = Some d, fc_status = DL_CHUNK_BUSY\<rparr>]
              else []) @ busy_chunks ys"
    using q by (auto simp: l0_def busy_chunks_def q_def new_def rem_def nv_def)
  have prem: "partition_from (fi_size fi) til (rem # ys)"
    and pnew: "partition_from (fi_size fi) frm (new\<lparr>fc_to := fc_to fc\<rparr> # ys)"
    using p0 u(1) assms(5)
    by (auto simp: l0_def partition_append [of _ _ xs] q_def new_def rem_def)
  show ?thesis
  proof (cases "status = DL_CHUNK_DONE")
    case True
    with nm u(4) l have "fi_chunklist fi' = l0" by simp
    moreover have "rem \<in> set l0" by (simp add: l0_def)
    ultimately show ?thesis using b0
      by (intro conjI bexI [of _ rem]) (simp_all add: rem_def)
  next
    case False
    with nm u(3) l have "file_info_merge_adjacent P (fi\<lparr>fi_chunklist := l0, fi_done := dn\<rparr>) = Inr fi'"
      by simp
    from merge_adjacent_chunks [OF this] obtain d' where
      m: "merge_chunks l0 = Inr (fi_chunklist fi', d')" by auto
    from merge_chunks_result [OF m] b0 have busy: "busy_chunks (fi_chunklist fi') =
           busy_chunks xs @ fc\<lparr>fc_to := frm\<rparr> #
             (if status = DL_CHUNK_BUSY
              then [\<lparr>fc_from = frm, fc_to = til, fc_download = Some d, fc_status = DL_CHUNK_BUSY\<rparr>]
              else []) @ busy_chunks ys" by simp
    from merge_chunks_split_busy [OF q m [unfolded l0_def]] obtain l1 l2 d1 where
      s: "fi_chunklist fi' = l1 @ l2"
         "merge_loop (visit_chunk new) (rem # ys) (visit_done new d1) = Inr (l2, d')" by blast
    have vn: "visit_chunk new = new" using False by (simp add: visit_chunk_def new_def)
    from update_status_valid [OF assms(6)] False
    have "status = DL_CHUNK_BUSY \<or> status = DL_CHUNK_EMPTY" by simp
    then have "\<exists>h \<in> set l2. fc_from h \<le> til \<and> fc_to fc \<le> fc_to h \<and>
            fc_status h = DL_CHUNK_EMPTY \<and> fc_download h = None"
    proof
      assume st: "status = DL_CHUNK_BUSY"
      then have nb: "fc_status new = DL_CHUNK_BUSY" by (simp add: new_def)
      from s(2) [unfolded vn merge_loop_after_busy [OF nb]]
      obtain l3 where m3: "merge_loop (visit_chunk rem) ys (visit_done rem (visit_done new d1)) = Inr (l3, d')"
        and l2: "l2 = new # l3"
        by (auto split: if_splits sum.splits)
      have vr: "visit_chunk rem = rem" by (simp add: visit_chunk_def rem_def)
      from merge_loop_head [OF m3 [unfolded vr] prem] l2 show ?thesis
        by (auto simp: rem_def)
    next
      assume st: "status = DL_CHUNK_EMPTY"
      with s(2) [unfolded vn]
      have m3: "merge_loop (new\<lparr>fc_to := fc_to fc\<rparr>) ys (visit_done rem (visit_done new d1)) = Inr (l2, d')"
        by (simp add: Let_def new_def rem_def visit_chunk_def)
      from merge_loop_head [OF m3 pnew] st u(1) show ?thesis
        by (auto simp: new_def nv_def)
    qed
    with s(1) busy show ?thesis by auto
  qed
qed

theorem stolen_remainder_released_witness:
  "chunklist_partition (fi_example 1000 0 [mk_chunk 0 1000 (Some 3) DL_CHUNK_BUSY]) \<and>
   fc_from (mk_chunk 0 1000 (Some 3) DL_CHUNK_BUSY) < 100 \<and>
   200 < fc_to (mk_chunk 0 1000 (Some 3) DL_CHUNK_BUSY) \<and>
   file_info_update props_example 2 100 200 DL_CHUNK_BUSY
       (fi_example 1000 0 [mk_chunk 0 1000 (Some 3) DL_CHUNK_BUSY])
     = Inr (fi_example 1000 0 [mk_chunk 0 100 (Some 3) DL_CHUNK_BUSY,
              mk_chunk 100 200 (Some 2) DL_CHUNK_BUSY, mk_chunk 200 1000 None DL_CHUNK_EMPTY]) \<and>
   busy_chunks (fi_chunklist (fi_example 1000 0 [mk_chunk 0 100 (Some 3) DL_CHUNK_BUSY,
              mk_chunk 100 200 (Some 2) DL_CHUNK_BUSY, mk_chunk 200 1000 None DL_CHUNK_EMPTY]))
     = [mk_chunk 0 100 (Some 3) DL_CHUNK_BUSY, mk_chunk 100 200 (Some 2) DL_CHUNK_BUSY]"
proof -
  let ?fc = "mk_chunk 0 1000 (Some 3) DL_CHUNK_BUSY"
  let ?fi = "fi_example 1000 0 [?fc]"
  let ?fi' = "fi_example 1000 0 [mk_chunk 0 100 (Some 3) DL_CHUNK_BUSY,
              mk_chunk 100 200 (Some 2) DL_CHUNK_BUSY, mk_chunk 200 1000 None DL_CHUNK_EMPTY]"
  have p: "chunklist_partition ?fi"
    by (simp add: chunklist_partition_def fi_example_def mk_chunk_def)
  have l: "fi_chunklist ?fi = [] @ ?fc # []" by (simp add: fi_example_def)
  have b: "fc_status ?fc = DL_CHUNK_BUSY" "fc_from ?fc < 100" "200 < fc_to ?fc"
    by (simp_all add: mk_chunk_def)
  have r: "file_info_update props_example 2 100 200 DL_CHUNK_BUSY ?fi = Inr ?fi'"
    by code_simp
  from stolen_remainder_released [OF p l b r] p b r show ?thesis
    by (simp add: busy_chunks_def mk_chunk_def)
qed

section \<open>Two records for one SHA1\<close>

lemma reparent_all_done:
  "file_info_reparent_all R a b = Inr R' \<Longrightarrow> \<exists>afi. reg_files R a = Some afi \<and> fi_done afi = 0"
  by (auto simp: file_info_reparent_all_def split: option.splits if_splits)

lemma reparent_all_result:
  assumes "reg_files R a = Some afi" "reg_files R b = Some bfi" "a \<noteq> b"
    "fi_done afi = 0" "fi_pathname afi \<noteq> fi_pathname bfi"
  shows "file_info_reparent_all R a b =
     Inr (R\<lparr>reg_by_sha1 := (case fi_sha1 afi of None \<Rightarrow> reg_by_sha1 R
                              | Some s \<Rightarrow> (reg_by_sha1 R)(s := None)),
            reg_files := (reg_files R)
                (a := None,
                 b \<mapsto> bfi\<lparr>fi_refcount := fi_refcount bfi + fi_refcount afi,
                          fi_lifecount := fi_lifecount bfi + fi_lifecount afi\<rparr>),
            reg_file_info := (\<lambda>d. if reg_file_info R d = Some a then Some b
                                   else reg_file_info R d)\<rparr>)"
  using assms
  by (auto simp: file_info_reparent_all_def download_info_change_all_def fi_discard_def Let_def
        fun_upd_twist split: option.splits intro!: registry.equality)

text \<open>
  Claim C8.  \<open>file_info_got_sha1\<close> is called on a record \<open>f\<close> without SHA1 while another
  record \<open>x\<close> owns the SHA1.  If both have bytes done, the call returns \<open>FALSE\<close> and the
  state is unchanged.  If only \<open>x\<close> has none, \<open>x\<close> is discarded, \<open>f\<close> takes the SHA1 and
  the entry of \<open>fi_by_sha1\<close>, and the sources of \<open>x\<close> now point to \<open>f\<close>; if only \<open>f\<close>
  has none, \<open>f\<close> is discarded and its sources now point to \<open>x\<close>.  The chunk list and
  the counter of the surviving record are untouched, and \<open>file_info_reparent_all\<close>
  returns only when the record it discards has no byte done.
\<close>

theorem got_sha1_conflict:
  assumes "reg_files R f = Some fi" and "fi_sha1 fi = None"
    and "reg_by_sha1 R sha1 = Some x" and "reg_files R x = Some xfi" and "x \<noteq> f"
  shows "(fi_done fi \<noteq> 0 \<and> fi_done xfi \<noteq> 0 \<longrightarrow> file_info_got_sha1 R f sha1 = Inr (False, R)) \<and>
    (fi_done fi \<noteq> 0 \<and> fi_done xfi = 0 \<and> fi_pathname xfi \<noteq> fi_pathname fi \<longrightarrow>
       (\<exists>R' fi'. file_info_got_sha1 R f sha1 = Inr (True, R') \<and>
          reg_files R' x = None \<and> reg_files R' f = Some fi' \<and>
          fi_chunklist fi' = fi_chunklist fi \<and> fi_done fi' = fi_done fi \<and>
          fi_sha1 fi' = Some sha1 \<and> reg_by_sha1 R' sha1 = Some f \<and>
          (\<forall>d. reg_file_info R d = Some x \<or> reg_file_info R d = Some f
                \<longrightarrow> reg_file_info R' d = Some f))) \<and>
    (fi_done fi = 0 \<and> fi_done xfi \<noteq> 0 \<and> fi_pathname fi \<noteq> fi_pathname xfi \<longrightarrow>
       (\<exists>R' xfi'. file_info_got_sha1 R f sha1 = Inr (True, R') \<and>
          reg_files R' f = None \<and> reg_files R' x = Some xfi' \<and>
          fi_chunklist xfi' = fi_chunklist xfi \<and> fi_done xfi' = fi_done xfi \<and>
          fi_sha1 xfi' = fi_sha1 xfi \<and> reg_by_sha1 R' sha1 = Some x \<and>
          (\<forall>d. reg_file_info R d = Some f \<or> reg_file_info R d = Some x
                \<longrightarrow> reg_file_info R' d = Some x))) \<and>
    (\<forall>a b R'. file_info_reparent_all R a b = Inr R' \<longrightarrow>
        (\<exists>afi. reg_files R a = Some afi \<and> fi_done afi = 0))"
proof (intro conjI impI allI)
  assume "fi_done fi \<noteq> 0 \<and> fi_done xfi \<noteq> 0"
  with assms show "file_info_got_sha1 R f sha1 = Inr (False, R)"
    by (simp add: file_info_got_sha1_def)
next
  assume a: "fi_done fi \<noteq> 0 \<and> fi_done xfi = 0 \<and> fi_pathname xfi \<noteq> fi_pathname fi"
  let ?R1 = "R\<lparr>reg_files := (reg_files R)(f \<mapsto> fi\<lparr>fi_sha1 := Some sha1\<rparr>)\<rparr>"
  have "file_info_reparent_all ?R1 x f = Inr (?R1\<lparr>reg_by_sha1 := (case fi_sha1 xfi of None \<Rightarrow> reg_by_sha1 ?R1
                              | Some s \<Rightarrow> (reg_by_sha1 ?R1)(s := None)),
            reg_files := (reg_files ?R1)
                (x := None,
                 f \<mapsto> (fi\<lparr>fi_sha1 := Some sha1\<rparr>)\<lparr>fi_refcount := fi_refcount (fi\<lparr>fi_sha1 := Some sha1\<rparr>) + fi_refcount xfi,
                          fi_lifecount := fi_lifecount (fi\<lparr>fi_sha1 := Some sha1\<rparr>) + fi_lifecount xfi\<rparr>),
            reg_file_info := (\<lambda>d. if reg_file_info ?R1 d = Some x then Some f
                                   else reg_file_info ?R1 d)\<rparr>)"
    using assms a by (intro reparent_all_result) auto
  with assms a show "\<exists>R' fi'. file_info_got_sha1 R f sha1 = Inr (True, R') \<and>
          reg_files R' x = None \<and> reg_files R' f = Some fi' \<and>
          fi_chunklist fi' = fi_chunklist fi \<and> fi_done fi' = fi_done fi \<and>
          fi_sha1 fi' = Some sha1 \<and> reg_by_sha1 R' sha1 = Some f \<and>
          (\<forall>d. reg_file_info R d = Some x \<or> reg_file_info R d = Some f
                \<longrightarrow> reg_file_info R' d = Some f)"
    by (simp add: file_info_got_sha1_def)
next
  assume a: "fi_done fi = 0 \<and> fi_done xfi \<noteq> 0 \<and> fi_pathname fi \<noteq> fi_pathname xfi"
  have "file_info_reparent_all R f x = Inr (R\<lparr>reg_by_sha1 := (case fi_sha1 fi of None \<Rightarrow> reg_by_sha1 R
                              | Some s \<Rightarrow> (reg_by_sha1 R)(s := None)),
            reg_files := (reg_files R)
                (f := None,
                 x \<mapsto> xfi\<lparr>fi_refcount := fi_refcount xfi + fi_refcount fi,
                          fi_lifecount := fi_lifecount xfi + fi_lifecount fi\<rparr>),
            reg_file_info := (\<lambda>d. if reg_file_info R d = Some f then Some x
                                   else reg_file_info R d)\<rparr>)"
    using assms a by (intro reparent_all_result) auto
  with assms a show "\<exists>R' xfi'. file_info_got_sha1 R f sha1 = Inr (True, R') \<and>
          reg_files R' f = None \<and> reg_files R' x = Some xfi' \<and>
          fi_chunklist xfi' = fi_chunklist xfi \<and> fi_done xfi' = fi_done xfi \<and>
          fi_sha1 xfi' = fi_sha1 xfi \<and> reg_by_sha1 R' sha1 = Some x \<and>
          (\<forall>d. reg_file_info R d = Some f \<or> reg_file_info R d = Some x
                \<longrightarrow> reg_file_info R' d = Some x)"
    by (simp add: file_info_got_sha1_def)
next
  fix a b R' assume "file_info_reparent_all R a b = Inr R'"
  then show "\<exists>afi. reg_files R a = Some afi \<and> fi_done afi = 0" by (rule reparent_all_done)
qed

theorem got_sha1_conflict_witness:
  "file_info_got_sha1 (registry_example 5 6) 3 [7] = Inr (False, registry_example 5 6) \<and>
   (\<exists>R'. file_info_got_sha1 (registry_example 5 0) 3 [7] = Inr (True, R') \<and>
      reg_files R' 4 = None \<and> reg_by_sha1 R' [7] = Some 3 \<and> reg_file_info R' 12 = Some 3) \<and>
   (\<exists>R'. file_info_got_sha1 (registry_example 0 6) 3 [7] = Inr (True, R') \<and>
      reg_files R' 3 = None \<and> reg_by_sha1 R' [7] = Some 4 \<and>
      reg_file_info R' 10 = Some 4 \<and> reg_file_info R' 11 = Some 4)"
proof -
  have h: "reg_files (registry_example a b) 3
             = Some ((fi_example 1000 a [])\<lparr>fi_pathname := ''/incomplete/a''\<rparr>)"
    "fi_sha1 ((fi_example 1000 a [])\<lparr>fi_pathname := ''/incomplete/a''\<rparr>) = None"
    "reg_by_sha1 (registry_example a b) [7] = Some 4"
    "reg_files (registry_example a b) 4
             = Some ((fi_example 1000 b [])\<lparr>fi_pathname := ''/incomplete/b'', fi_sha1 := Some [7]\<rparr>)"
    "(4::nat) \<noteq> 3" for a b
    by (simp_all add: registry_example_def fi_example_def)
  have i: "reg_file_info (registry_example a b) 12 = Some 4"
    "reg_file_info (registry_example a b) 10 = Some 3"
    "reg_file_info (registry_example a b) 11 = Some 3" for a b
    by (simp_all add: registry_example_def)
  from got_sha1_conflict [OF h(1) [of 5 6] h(2) h(3) h(4) h(5)]
  have 1: "file_info_got_sha1 (registry_example 5 6) 3 [7] = Inr (False, registry_example 5 6)"
    by (simp add: fi_example_def)
  from got_sha1_conflict [OF h(1) [of 5 0] h(2) h(3) h(4) h(5)]
  have 2: "\<exists>R'. file_info_got_sha1 (registry_example 5 0) 3 [7] = Inr (True, R') \<and>
      reg_files R' 4 = None \<and> reg_by_sha1 R' [7] = Some 3 \<and> reg_file_info R' 12 = Some 3"
    using i [of 5 0] by (auto simp: fi_example_def)
  from got_sha1_conflict [OF h(1) [of 0 6] h(2) h(3) h(4) h(5)]
  have 3: "\<exists>R'. file_info_got_sha1 (registry_example 0 6) 3 [7] = Inr (True, R') \<and>
      reg_files R' 3 = None \<and> reg_by_sha1 R' [7] = Some 4 \<and>
      reg_file_info R' 10 = Some 4 \<and> reg_file_info R' 11 = Some 4"
    using i [of 0 6] by (auto simp: fi_example_def)
  from 1 2 3 show ?thesis by blast
qed

end
